theory Spec2Isabelle
  imports Complex_Main "HOL-Library.Sublist"
begin

section \<open>JavaScript strings\<close>

text \<open>
  A JavaScript string is a sequence of UTF-16 code units. The parsers of the extension
  test single code units (white space, digits, the glyphs U+2713 and U+2717), so a
  string is modelled as the list of its code units, each a natural number. Literals of
  the source are written \<open>str ''...''\<close>.
\<close>

type_synonym jsstring = "nat list"

definition str :: "string \<Rightarrow> jsstring" where
  "str s = map of_char s"

text \<open>
  The characters matched by \<open>\s\<close> in a regular expression, which are also the characters
  removed by \<open>String.prototype.trim\<close>: TAB, LF, VT, FF, CR, SP, NBSP, U+1680,
  U+2000 to U+200A, U+2028, U+2029, U+202F, U+205F, U+3000 and U+FEFF.
\<close>

definition isWhiteSpace :: "nat \<Rightarrow> bool" where
  "isWhiteSpace c \<longleftrightarrow>
     (9 \<le> c \<and> c \<le> 13) \<or> c = 32 \<or> c = 160 \<or> c = 5760 \<or> (8192 \<le> c \<and> c \<le> 8202)
     \<or> c = 8232 \<or> c = 8233 \<or> c = 8239 \<or> c = 8287 \<or> c = 12288 \<or> c = 65279"

text \<open>The line terminators LF, CR, U+2028 and U+2029, which \<open>.\<close> does not match.\<close>

definition isLineTerminator :: "nat \<Rightarrow> bool" where
  "isLineTerminator c \<longleftrightarrow> c = 10 \<or> c = 13 \<or> c = 8232 \<or> c = 8233"

text \<open>The characters matched by \<open>\d\<close>: the ASCII digits.\<close>

definition isDigit :: "nat \<Rightarrow> bool" where
  "isDigit c \<longleftrightarrow> 48 \<le> c \<and> c \<le> 57"

definition trim :: "jsstring \<Rightarrow> jsstring" where
  "trim s = rev (dropWhile isWhiteSpace (rev (dropWhile isWhiteSpace s)))"

text \<open>\<open>s.includes(sub)\<close>: \<open>sub\<close> occurs in \<open>s\<close> as a contiguous block.\<close>

fun includes_js :: "jsstring \<Rightarrow> jsstring \<Rightarrow> bool" where
  "includes_js [] sub = (sub = [])"
| "includes_js (c # cs) sub = (prefix sub (c # cs) \<or> includes_js cs sub)"

definition startsWith :: "jsstring \<Rightarrow> jsstring \<Rightarrow> bool" where
  "startsWith s p = prefix p s"

definition endsWith :: "jsstring \<Rightarrow> jsstring \<Rightarrow> bool" where
  "endsWith s p = suffix p s"

text \<open>
  \<open>s.split('\n')\<close>: the pieces of \<open>s\<close> between line feeds; never the empty list
  (the empty string gives one empty piece).
\<close>

fun split_nl :: "jsstring \<Rightarrow> jsstring list" where
  "split_nl [] = [[]]"
| "split_nl (c # cs) =
     (if c = 10 then [] # split_nl cs
      else (case split_nl cs of [] \<Rightarrow> [[c]] | l # ls \<Rightarrow> (c # l) # ls))"

text \<open>\<open>ls.join('\n')\<close>.\<close>

fun join_nl :: "jsstring list \<Rightarrow> jsstring" where
  "join_nl [] = []"
| "join_nl [l] = l"
| "join_nl (l # l' # ls) = l @ 10 # join_nl (l' # ls)"

text \<open>
  \<open>parseInt\<close> on a string of decimal digits, as the natural number it denotes (the
  double that JavaScript returns is not exact beyond \<open>2^53\<close>; the parsers only
  compare the result with 0 and store it).
\<close>

definition parseInt :: "jsstring \<Rightarrow> nat" where
  "parseInt ds = foldl (\<lambda>n c. 10 * n + (c - 48)) 0 ds"

section \<open>Choice of the coverage parser\<close>

text \<open>
  \<open>ConfigManager.getCoverageFormat\<close> reads the setting \<open>dotnet.coverage.format\<close> with
  the default \<open>'cobertura'\<close>; the setting is \<open>None\<close> when the user has not set it.
\<close>

definition getCoverageFormat :: "jsstring option \<Rightarrow> jsstring" where
  "getCoverageFormat setting = (case setting of None \<Rightarrow> str ''cobertura'' | Some f \<Rightarrow> f)"

datatype report_parser = CoberturaReport | JsonReport | LcovReport

text \<open>
  \<open>CoverageProvider.parseCoverageFile\<close>: the parse routine that the chain of tests
  invokes for a report file and a format, \<open>None\<close> when no test succeeds and the file is
  left unread.
\<close>

definition parseCoverageFile :: "jsstring \<Rightarrow> jsstring \<Rightarrow> report_parser option" where
  "parseCoverageFile path format =
     (if format = str ''cobertura'' \<or> endsWith path (str ''.xml'') then Some CoberturaReport
      else if format = str ''json'' \<or> endsWith path (str ''.json'') then Some JsonReport
      else if format = str ''lcov'' \<or> endsWith path (str ''.lcov'') then Some LcovReport
      else None)"

section \<open>The coverage store and the LCOV parser\<close>

text \<open>
  The interface \<open>CoverageData\<close>. A JavaScript number is an IEEE double; the model takes
  the real number it stands for, so rounding is not part of the model.
\<close>

record line_info =
  line :: nat
  covered :: bool

record CoverageData =
  filePath :: jsstring
  coverage :: real
  lines :: "line_info list"

text \<open>
  The field \<open>coverageData\<close> is a JavaScript \<open>Map\<close>: it keeps its entries in the order
  in which their keys were first inserted, and holds one entry for each key. It is
  modelled as an association list; \<open>Map_set\<close> is \<open>Map.prototype.set\<close>, which replaces
  the value of a key that is present, in place, and appends a key that is absent.
\<close>

type_synonym coverage_map = "(jsstring \<times> CoverageData) list"

fun Map_set :: "'k \<Rightarrow> 'v \<Rightarrow> ('k \<times> 'v) list \<Rightarrow> ('k \<times> 'v) list" where
  "Map_set k v [] = [(k, v)]"
| "Map_set k v ((k', v') # m) = (if k' = k then (k, v) # m else (k', v') # Map_set k v m)"

text \<open>\<open>Map.prototype.get\<close> is \<open>map_of\<close>, and \<open>size\<close> is \<open>length\<close>.\<close>

text \<open>
  The match of \<open>/^DA:(\d+),(\d+)$/\<close>: the two groups of digits, when the line has that
  shape.
\<close>

definition matchDA :: "jsstring \<Rightarrow> (jsstring \<times> jsstring) option" where
  "matchDA l =
     (if startsWith l (str ''DA:'') then
        (let r = drop 3 l; a = takeWhile isDigit r in
         if a = [] then None
         else (case dropWhile isDigit r of
                 [] \<Rightarrow> None
               | c # b \<Rightarrow> if c = 44 \<and> b \<noteq> [] \<and> list_all isDigit b then Some (a, b) else None))
      else None)"

text \<open>
  The state of the loop of \<open>parseLcovReport\<close>: the variables \<open>currentFile\<close> and
  \<open>currentCoverage\<close> (\<open>None\<close> for \<open>null\<close>), and the store.
\<close>

type_synonym lcov_state = "jsstring \<times> CoverageData option \<times> coverage_map"

fun lcovStep :: "jsstring \<Rightarrow> lcov_state \<Rightarrow> lcov_state" where
  "lcovStep l (currentFile, currentCoverage, coverageData) =
     (if startsWith l (str ''SF:'') then
        (drop 3 l, Some \<lparr>filePath = drop 3 l, coverage = 0, lines = []\<rparr>, coverageData)
      else if startsWith l (str ''DA:'') \<and> currentCoverage \<noteq> None then
        (case matchDA l of
           Some (a, b) \<Rightarrow>
             (currentFile,
              map_option (\<lambda>c. c\<lparr>lines := lines c @ [\<lparr>line = parseInt a, covered = (parseInt b > 0)\<rparr>]\<rparr>)
                currentCoverage,
              coverageData)
         | None \<Rightarrow> (currentFile, currentCoverage, coverageData))
      else if l = str ''end_of_record'' \<and> currentCoverage \<noteq> None then
        (case currentCoverage of
           Some c \<Rightarrow>
             (currentFile, None,
              Map_set currentFile
                (if length (lines c) > 0
                 then c\<lparr>coverage := real (length (filter covered (lines c))) / real (length (lines c)) * 100\<rparr>
                 else c)
                coverageData)
         | None \<Rightarrow> (currentFile, currentCoverage, coverageData))
      else (currentFile, currentCoverage, coverageData))"

text \<open>
  The loop over the lines of a report, from any state, and \<open>parseLcovReport\<close> on the
  text of the report file: it returns the store it leaves.
\<close>

definition lcovLoop :: "jsstring list \<Rightarrow> lcov_state \<Rightarrow> lcov_state" where
  "lcovLoop ls st = fold lcovStep ls st"

definition parseLcovReport :: "jsstring \<Rightarrow> coverage_map \<Rightarrow> coverage_map" where
  "parseLcovReport content coverageData =
     snd (snd (lcovLoop (split_nl content) ([], None, coverageData)))"

text \<open>\<open>getOverallCoverage\<close>: the loop adds the field \<open>coverage\<close> of every value.\<close>

definition getOverallCoverage :: "coverage_map \<Rightarrow> real" where
  "getOverallCoverage coverageData =
     (if length coverageData = 0 then 0
      else fold (\<lambda>kv totalCoverage. totalCoverage + coverage (snd kv)) coverageData 0
           / real (length coverageData))"

definition getCoverageForFile :: "coverage_map \<Rightarrow> jsstring \<Rightarrow> CoverageData option" where
  "getCoverageForFile coverageData f = map_of coverageData f"

text \<open>
  The percentage of a list of tracked lines as the specification words it: covered lines
  over tracked lines, times 100, and 0 when no line is tracked.
\<close>

definition line_percentage :: "line_info list \<Rightarrow> real" where
  "line_percentage ls =
     (if ls = [] then 0 else real (length (filter covered ls)) / real (length ls) * 100)"



text \<open>The file paths named by the \<open>SF:\<close> lines of a report.\<close>

definition sf_paths :: "jsstring list \<Rightarrow> jsstring list" where
  "sf_paths ls = map (drop 3) (filter (\<lambda>l. startsWith l (str ''SF:'')) ls)"

text \<open>
  What holds of the variables between two turns of the loop: an open record carries the
  path in \<open>currentFile\<close>, and its field \<open>coverage\<close> still has the initial 0.
\<close>

definition open_ok :: "lcov_state \<Rightarrow> bool" where
  "open_ok st \<longleftrightarrow>
     (case fst (snd st) of None \<Rightarrow> True | Some c \<Rightarrow> filePath c = fst st \<and> coverage c = 0)"

section \<open>The parser of the test output\<close>

datatype outcome = Passed | Failed | Skipped

text \<open>
  \<open>Partial<TestResult>\<close>: every field may be unset. A record that was pushed on
  \<open>results\<close> has its outcome set.
\<close>

record TestResult =
  name :: "jsstring option"
  outcome :: "outcome option"
  duration :: "real option"
  errorMessage :: "jsstring option"
  stackTrace :: "jsstring option"

text \<open>
  Under the flag \<open>i\<close> two characters match when their upper-case forms agree; a
  character outside ASCII never matches an ASCII character of the pattern.
\<close>

definition asciiUpper :: "nat \<Rightarrow> nat" where
  "asciiUpper c = (if 97 \<le> c \<and> c \<le> 122 then c - 32 else c)"

text \<open>
  \<open>/^\s*LABEL/i\<close> for a label that starts with a letter: the rest of the line after
  the label.
\<close>

definition matchLabel :: "jsstring \<Rightarrow> jsstring \<Rightarrow> jsstring option" where
  "matchLabel label l =
     (let r = dropWhile isWhiteSpace l in
      if length label \<le> length r \<and> map asciiUpper (take (length label) r) = map asciiUpper label
      then Some (drop (length label) r) else None)"

text \<open>
  \<open>\s*(.+)$\<close> on the rest of a line: the group. \<open>\s*\<close> takes all the white space it
  can and gives one character back when nothing else is left; \<open>.\<close> takes no line
  terminator, and \<open>$\<close> is the end of the line, so a line terminator after the white
  space prevents the match.
\<close>

definition captureRest :: "jsstring \<Rightarrow> jsstring option" where
  "captureRest rest =
     (let r = dropWhile isWhiteSpace rest in
      if r \<noteq> [] then (if list_ex isLineTerminator r then None else Some r)
      else if rest = [] \<or> isLineTerminator (last rest) then None
      else Some [last rest])"

text \<open>\<open>line.match(/^\s*LABEL\s*(.+)$/i)\<close>: the group \<open>match[1]\<close>, \<open>None\<close> for no match.\<close>

definition matchMarker :: "jsstring \<Rightarrow> jsstring \<Rightarrow> jsstring option" where
  "matchMarker label l = (case matchLabel label l of None \<Rightarrow> None | Some rest \<Rightarrow> captureRest rest)"

text \<open>\<open>/^\s*G\s+/\<close> for a glyph \<open>G\<close> that is not white space.\<close>

definition matchGlyph :: "nat \<Rightarrow> jsstring \<Rightarrow> bool" where
  "matchGlyph g l =
     (case dropWhile isWhiteSpace l of
        [] \<Rightarrow> False
      | c # r \<Rightarrow> c = g \<and> (case r of [] \<Rightarrow> False | w # _ \<Rightarrow> isWhiteSpace w))"

definition isPassedLine :: "jsstring \<Rightarrow> bool" where
  "isPassedLine l \<longleftrightarrow> includes_js l (str ''Passed!'') \<or> matchGlyph 10003 l"

definition isFailedLine :: "jsstring \<Rightarrow> bool" where
  "isFailedLine l \<longleftrightarrow> includes_js l (str ''Failed!'') \<or> matchGlyph 10007 l"

definition isSkippedLine :: "jsstring \<Rightarrow> bool" where
  "isSkippedLine l \<longleftrightarrow> includes_js l (str ''Skipped'')"

text \<open>
  \<open>(\d+(?:\.\d+)?)\s*(ms|s)\<close> tried at the start of a string: the groups 1 and 2. Each
  part takes all it can; giving characters back never helps, since the character that
  follows a run of digits or of white space is then a digit or white space, not a unit.
\<close>

definition matchDurationAt :: "jsstring \<Rightarrow> (jsstring \<times> jsstring) option" where
  "matchDurationAt s =
     (let ip = takeWhile isDigit s; r1 = dropWhile isDigit s in
      if ip = [] then None
      else
        (let fp = (case r1 of [] \<Rightarrow> [] | c # r \<Rightarrow> if c = 46 then takeWhile isDigit r else []);
             num = (if fp = [] then ip else ip @ 46 # fp);
             r2 = (if fp = [] then r1 else drop (Suc (length fp)) r1);
             r3 = dropWhile isWhiteSpace r2
         in if startsWith r3 (str ''ms'') then Some (num, str ''ms'')
            else if startsWith r3 (str ''s'') then Some (num, str ''s'')
            else None))"

text \<open>\<open>durationStr.match(...)\<close>: the match at the leftmost position that has one.\<close>

fun searchDuration :: "jsstring \<Rightarrow> (jsstring \<times> jsstring) option" where
  "searchDuration [] = None"
| "searchDuration (c # cs) =
     (case matchDurationAt (c # cs) of Some m \<Rightarrow> Some m | None \<Rightarrow> searchDuration cs)"

text \<open>\<open>parseFloat\<close> on digits, or digits, a point and digits.\<close>

definition parseFloat :: "jsstring \<Rightarrow> real" where
  "parseFloat s =
     (let ip = takeWhile isDigit s; fp = drop (Suc (length ip)) s in
      real (parseInt ip) + real (parseInt fp) / 10 ^ length fp)"

text \<open>
  The inner loop of the stack trace branch, for the marker at index \<open>i\<close>: \<open>j\<close> runs from
  \<open>i + 1\<close> while \<open>j < lines.length && j < i + 20\<close>, and stops at the first line that is
  empty after \<open>trim\<close>.
\<close>

definition stackTraceLines :: "jsstring list \<Rightarrow> nat \<Rightarrow> jsstring list" where
  "stackTraceLines ls i =
     takeWhile (\<lambda>l. trim l \<noteq> []) (map (\<lambda>j. ls ! j) [i + 1 ..< min (length ls) (i + 20)])"

type_synonym parse_state = "TestResult list \<times> TestResult option"

text \<open>The body of the three terminal branches: push the open record with its outcome.\<close>

fun seal :: "outcome \<Rightarrow> parse_state \<Rightarrow> parse_state" where
  "seal oc (results, Some t) = (results @ [t\<lparr>outcome := Some oc\<rparr>], None)"
| "seal oc (results, None) = (results, None)"

text \<open>\<open>!currentTest.name\<close>: the name is unset or the empty string.\<close>

definition nameUnset :: "TestResult \<Rightarrow> bool" where
  "nameUnset t \<longleftrightarrow> name t = None \<or> name t = Some []"

definition durationValue :: "jsstring \<times> jsstring \<Rightarrow> real" where
  "durationValue m = (if snd m = str ''s'' then parseFloat (fst m) * 1000 else parseFloat (fst m))"

text \<open>One turn of the loop of \<open>parseTestResults\<close>, at index \<open>i\<close>.\<close>

fun parseStep :: "jsstring list \<Rightarrow> nat \<Rightarrow> parse_state \<Rightarrow> parse_state" where
  "parseStep ls i (results, currentTest) =
     (let l = ls ! i in
      if isPassedLine l then seal Passed (results, currentTest)
      else if isFailedLine l then seal Failed (results, currentTest)
      else if isSkippedLine l then seal Skipped (results, currentTest)
      else if matchMarker (str ''Test Name:'') l \<noteq> None then
        (case matchMarker (str ''Test Name:'') l of
           Some m \<Rightarrow>
             (results,
              Some \<lparr>name = Some (trim m), outcome = None, duration = None,
                    errorMessage = None, stackTrace = None\<rparr>)
         | None \<Rightarrow> (results, currentTest))
      else if matchMarker (str ''Test Method:'') l \<noteq> None then
        (case (matchMarker (str ''Test Method:'') l, currentTest) of
           (Some m, Some t) \<Rightarrow>
             if nameUnset t then (results, Some (t\<lparr>name := Some (trim m)\<rparr>))
             else (results, currentTest)
         | _ \<Rightarrow> (results, currentTest))
      else if matchMarker (str ''Duration:'') l \<noteq> None then
        (case (matchMarker (str ''Duration:'') l, currentTest) of
           (Some m, Some t) \<Rightarrow>
             (case searchDuration (trim m) of
                Some durationMatch \<Rightarrow> (results, Some (t\<lparr>duration := Some (durationValue durationMatch)\<rparr>))
              | None \<Rightarrow> (results, currentTest))
         | _ \<Rightarrow> (results, currentTest))
      else if matchMarker (str ''Error Message:'') l \<noteq> None then
        (case (matchMarker (str ''Error Message:'') l, currentTest) of
           (Some m, Some t) \<Rightarrow> (results, Some (t\<lparr>errorMessage := Some (trim m)\<rparr>))
         | _ \<Rightarrow> (results, currentTest))
      else if matchLabel (str ''Stack Trace:'') l \<noteq> None then
        (case currentTest of
           Some t \<Rightarrow> (results, Some (t\<lparr>stackTrace := Some (join_nl (stackTraceLines ls i))\<rparr>))
         | None \<Rightarrow> (results, currentTest))
      else (results, currentTest))"

text \<open>
  The loop over all indices, and \<open>parseTestResults\<close>: it returns \<open>results\<close> and drops
  whatever \<open>currentTest\<close> holds.
\<close>

definition parseLoop :: "jsstring list \<Rightarrow> parse_state" where
  "parseLoop ls = fold (parseStep ls) [0 ..< length ls] ([], None)"

definition parseTestResults :: "jsstring \<Rightarrow> TestResult list" where
  "parseTestResults output = fst (parseLoop (split_nl output))"

text \<open>A line on which one of the three terminal branches is taken.\<close>

definition isTerminalLine :: "jsstring \<Rightarrow> bool" where
  "isTerminalLine l \<longleftrightarrow> isPassedLine l \<or> isFailedLine l \<or> isSkippedLine l"

text \<open>
  What holds of the state between two turns of the loop: every pushed record has its
  outcome, and the open record has none.
\<close>

definition sealed_ok :: "parse_state \<Rightarrow> bool" where
  "sealed_ok st \<longleftrightarrow>
     list_all (\<lambda>t. outcome t \<noteq> None) (fst st)
     \<and> (case snd st of None \<Rightarrow> True | Some t \<Rightarrow> outcome t = None)"

text \<open>
  The text of a duration as the specification words it: a well-formed number (digits,
  or digits, a point and digits) followed, after optional white space, by one of the
  units \<open>ms\<close> and \<open>s\<close>, somewhere in the string.
\<close>

definition digits :: "jsstring \<Rightarrow> bool" where
  "digits ds \<longleftrightarrow> ds \<noteq> [] \<and> list_all isDigit ds"

definition number_text :: "jsstring \<Rightarrow> bool" where
  "number_text n \<longleftrightarrow> digits n \<or> (\<exists>ip fp. n = ip @ 46 # fp \<and> digits ip \<and> digits fp)"

definition contains_number_unit :: "jsstring \<Rightarrow> bool" where
  "contains_number_unit s \<longleftrightarrow>
     (\<exists>pre n ws u post. s = pre @ n @ ws @ u @ post \<and> number_text n
        \<and> list_all isWhiteSpace ws \<and> (u = str ''ms'' \<or> u = str ''s''))"

section \<open>The Cobertura and JSON parsers\<close>

text \<open>
  \<open>parseCoberturaReport\<close> and \<open>parseJsonReport\<close> hand the text of the file to a decoder
  (\<open>xml2js\<close>, \<open>JSON.parse\<close>) that is a library outside the repository; they are
  modelled on the decoded document. A decoded document is \<open>None\<close> when the decoder throws
  or the code throws on the shape of the document before it reaches the first class or
  module; an element of a list is \<open>None\<close> when the code throws a \<open>TypeError\<close> on it (an
  XML element without attributes, a \<open>null\<close> in the JSON). An exception leaves the routine
  at once; the writes made so far stay in the store, and \<open>parseCoverageFile\<close> catches it.
  The texts of attributes and keys that the code reads as numbers are decimal numerals,
  and a class element carries its \<open>filename\<close>.
\<close>

datatype completion = Completed | Threw

text \<open>\<open>x || d\<close> for an attribute text \<open>x\<close>: \<open>d\<close> when \<open>x\<close> is undefined or empty.\<close>

definition orDefault :: "jsstring option \<Rightarrow> jsstring \<Rightarrow> jsstring" where
  "orDefault x d = (case x of None \<Rightarrow> d | Some s \<Rightarrow> if s = [] then d else s)"

text \<open>The attributes \<open>line.$\<close> and \<open>cls.$\<close>, and the \<open>line\<close> elements of a class.\<close>

record cobertura_line =
  number :: jsstring
  hits :: "jsstring option"

record cobertura_class =
  filename :: jsstring
  lineRate :: "jsstring option"
  class_lines :: "cobertura_line option list"

text \<open>The loop over the lines of a class; \<open>None\<close> when it throws.\<close>

fun coberturaLines :: "cobertura_line option list \<Rightarrow> line_info list \<Rightarrow> line_info list option" where
  "coberturaLines [] acc = Some acc"
| "coberturaLines (None # ls) acc = None"
| "coberturaLines (Some l # ls) acc =
     coberturaLines ls
       (acc @ [\<lparr>line = parseInt (number l),
                covered = (parseInt (orDefault (hits l) (str ''0'')) > 0)\<rparr>])"

text \<open>The loop over the classes of a package.\<close>

fun coberturaClasses :: "cobertura_class option list \<Rightarrow> coverage_map \<Rightarrow> completion \<times> coverage_map" where
  "coberturaClasses [] m = (Completed, m)"
| "coberturaClasses (None # cs) m = (Threw, m)"
| "coberturaClasses (Some cls # cs) m =
     (case coberturaLines (class_lines cls) [] of
        None \<Rightarrow> (Threw, m)
      | Some ls \<Rightarrow>
          coberturaClasses cs
            (Map_set (filename cls)
               \<lparr>filePath = filename cls,
                coverage = parseFloat (orDefault (lineRate cls) (str ''0'')) * 100,
                lines = ls\<rparr> m))"

text \<open>The loop over the packages.\<close>

fun coberturaPackages :: "cobertura_class option list list \<Rightarrow> coverage_map \<Rightarrow> completion \<times> coverage_map" where
  "coberturaPackages [] m = (Completed, m)"
| "coberturaPackages (pkg # pkgs) m =
     (case coberturaClasses pkg m of
        (Threw, m') \<Rightarrow> (Threw, m')
      | (Completed, m') \<Rightarrow> coberturaPackages pkgs m')"

definition parseCoberturaReport ::
    "cobertura_class option list list option \<Rightarrow> coverage_map \<Rightarrow> completion \<times> coverage_map" where
  "parseCoberturaReport decoded m =
     (case decoded of None \<Rightarrow> (Threw, m) | Some packages \<Rightarrow> coberturaPackages packages m)"

text \<open>
  A document of the JSON report: the value of \<open>document.linecoverage || 0\<close>, and the
  entries of \<open>document.lines\<close> in the order of \<open>Object.entries\<close>, each the key and the value
  of \<open>line.usages || 0\<close>.
\<close>

record json_document =
  linecoverage :: real
  document_lines :: "(jsstring \<times> real option) list"

fun jsonLines :: "(jsstring \<times> real option) list \<Rightarrow> line_info list \<Rightarrow> line_info list option" where
  "jsonLines [] acc = Some acc"
| "jsonLines ((lineNum, None) # es) acc = None"
| "jsonLines ((lineNum, Some usages) # es) acc =
     jsonLines es (acc @ [\<lparr>line = parseInt lineNum, covered = (usages > 0)\<rparr>])"

text \<open>The loop over the documents of a module, and the loop over the modules.\<close>

fun jsonDocuments :: "(jsstring \<times> json_document option) list \<Rightarrow> coverage_map \<Rightarrow> completion \<times> coverage_map" where
  "jsonDocuments [] m = (Completed, m)"
| "jsonDocuments ((path, None) # ds) m = (Threw, m)"
| "jsonDocuments ((path, Some d) # ds) m =
     (case jsonLines (document_lines d) [] of
        None \<Rightarrow> (Threw, m)
      | Some ls \<Rightarrow>
          jsonDocuments ds
            (Map_set path \<lparr>filePath = path, coverage = linecoverage d * 100, lines = ls\<rparr> m))"

fun jsonModules ::
    "(jsstring \<times> json_document option) list option list \<Rightarrow> coverage_map \<Rightarrow> completion \<times> coverage_map" where
  "jsonModules [] m = (Completed, m)"
| "jsonModules (None # ms) m = (Threw, m)"
| "jsonModules (Some documents # ms) m =
     (case jsonDocuments documents m of
        (Threw, m') \<Rightarrow> (Threw, m')
      | (Completed, m') \<Rightarrow> jsonModules ms m')"

definition parseJsonReport ::
    "(jsstring \<times> json_document option) list option list option \<Rightarrow> coverage_map \<Rightarrow> completion \<times> coverage_map" where
  "parseJsonReport decoded m =
     (case decoded of None \<Rightarrow> (Threw, m) | Some modules \<Rightarrow> jsonModules modules m)"

text \<open>
  One coverage parse, as \<open>parseCoverageFile\<close> runs it once the routine is chosen: the
  store that the routine leaves, whether it completes or throws.
\<close>

datatype coverage_report =
    CoberturaFile "cobertura_class option list list option"
  | JsonFile "(jsstring \<times> json_document option) list option list option"
  | LcovFile jsstring

fun parseReport :: "coverage_report \<Rightarrow> coverage_map \<Rightarrow> coverage_map" where
  "parseReport (CoberturaFile decoded) m = snd (parseCoberturaReport decoded m)"
| "parseReport (JsonFile decoded) m = snd (parseJsonReport decoded m)"
| "parseReport (LcovFile content) m = parseLcovReport content m"

section \<open>The choice of the coverage parser\<close>

text \<open>
  C1 (as stated, refuted): with the setting \<open>lcov\<close> a file is not always parsed as LCOV.
  The report \<open>coverage.cobertura.xml\<close> is handed to the Cobertura parser, because the
  test of the extension \<open>.xml\<close> comes before the test of the setting \<open>lcov\<close>.
\<close>

theorem C1_lcov_setting_counterexample:
  "parseCoverageFile (str ''coverage.cobertura.xml'') (getCoverageFormat (Some (str ''lcov'')))
     = Some CoberturaReport
   \<and> parseCoverageFile (str ''coverage.cobertura.xml'') (getCoverageFormat (Some (str ''lcov'')))
     \<noteq> Some LcovReport"
  by (simp add: parseCoverageFile_def getCoverageFormat_def endsWith_def suffix_to_prefix str_def)

text \<open>
  C1 (amended): the parser applied to a report file is the first of Cobertura, JSON and
  LCOV, in this order, whose format name is the setting or whose extension (\<open>.xml\<close>,
  \<open>.json\<close>, \<open>.lcov\<close>) the file has; an unset setting counts as \<open>cobertura\<close>. So the
  setting \<open>cobertura\<close>, or no setting, selects Cobertura for every file; an \<open>.xml\<close> file
  is parsed as Cobertura under every setting; the setting \<open>lcov\<close> selects LCOV only for
  files that end neither in \<open>.xml\<close> nor in \<open>.json\<close>; and under any other setting, such as
  \<open>auto\<close>, the extension alone decides.
\<close>

theorem C1_parser_choice:
  "parseCoverageFile path (getCoverageFormat setting) =
     (if setting = None \<or> setting = Some (str ''cobertura'') \<or> endsWith path (str ''.xml'')
      then Some CoberturaReport
      else if setting = Some (str ''json'') \<or> endsWith path (str ''.json'')
      then Some JsonReport
      else if setting = Some (str ''lcov'') \<or> endsWith path (str ''.lcov'')
      then Some LcovReport
      else None)"
  by (cases setting) (simp_all add: parseCoverageFile_def getCoverageFormat_def)

theorem C1_parser_choice_witness:
  "parseCoverageFile (str ''report.txt'') (getCoverageFormat (Some (str ''lcov''))) = Some LcovReport
   \<and> parseCoverageFile (str ''coverage.lcov'') (getCoverageFormat None) = Some CoberturaReport
   \<and> parseCoverageFile (str ''coverage.json'') (getCoverageFormat (Some (str ''lcov''))) = Some JsonReport
   \<and> parseCoverageFile (str ''coverage.lcov'') (getCoverageFormat (Some (str ''auto''))) = Some LcovReport"
  using C1_parser_choice [of "str ''report.txt''" "Some (str ''lcov'')"]
        C1_parser_choice [of "str ''coverage.lcov''" None]
        C1_parser_choice [of "str ''coverage.json''" "Some (str ''lcov'')"]
        C1_parser_choice [of "str ''coverage.lcov''" "Some (str ''auto'')"]
  by (simp add: endsWith_def suffix_to_prefix str_def)

section \<open>The overall coverage\<close>

lemma fold_add_coverage:
  "fold (\<lambda>kv total. total + coverage (snd kv)) m a = a + sum_list (map (\<lambda>kv. coverage (snd kv)) m)"
  by (induction m arbitrary: a) simp_all

text \<open>
  C6: \<open>getOverallCoverage\<close> is the sum of the field \<open>coverage\<close> of the stored records
  divided by their number, and 0 for the empty store. The lines of the records do not
  occur in the result: a record counts once, whatever its number of lines.
\<close>

theorem C6_overall_mean:
  "getOverallCoverage m =
     (if m = [] then 0 else sum_list (map (\<lambda>kv. coverage (snd kv)) m) / real (length m))"
  by (simp add: getOverallCoverage_def fold_add_coverage)

theorem C6_overall_mean_witness:
  "getOverallCoverage
     [(str ''a.cs'', \<lparr>filePath = str ''a.cs'', coverage = 100,
         lines = [\<lparr>line = 1, covered = True\<rparr>]\<rparr>),
      (str ''b.cs'', \<lparr>filePath = str ''b.cs'', coverage = 50,
         lines = [\<lparr>line = 1, covered = True\<rparr>, \<lparr>line = 2, covered = False\<rparr>,
                  \<lparr>line = 3, covered = True\<rparr>, \<lparr>line = 4, covered = False\<rparr>]\<rparr>)] = 75
   \<and> getOverallCoverage [] = 0"
  using C6_overall_mean [of "[(str ''a.cs'', \<lparr>filePath = str ''a.cs'', coverage = 100,
         lines = [\<lparr>line = 1, covered = True\<rparr>]\<rparr>),
      (str ''b.cs'', \<lparr>filePath = str ''b.cs'', coverage = 50,
         lines = [\<lparr>line = 1, covered = True\<rparr>, \<lparr>line = 2, covered = False\<rparr>,
                  \<lparr>line = 3, covered = True\<rparr>, \<lparr>line = 4, covered = False\<rparr>]\<rparr>)]"]
        C6_overall_mean [of "[]"]
  by simp

section \<open>The store\<close>

lemma map_of_Map_set: "map_of (Map_set k v m) = (map_of m)(k \<mapsto> v)"
  by (induction m) (auto simp: fun_eq_iff)








section \<open>The LCOV parser\<close>

text \<open>The marker lines are told apart by their first characters.\<close>

lemma end_of_record_not_marker:
  "\<not> startsWith (str ''end_of_record'') (str ''SF:'')"
  "\<not> startsWith (str ''end_of_record'') (str ''DA:'')"
  by (simp_all add: startsWith_def str_def)

lemma startsWith_SF: "startsWith (str ''SF:'' @ f) (str ''SF:'')" "drop 3 (str ''SF:'' @ f) = f"
  by (simp_all add: startsWith_def str_def)



lemma lcovStep_SF_line:
  "startsWith l (str ''SF:'') \<Longrightarrow>
   lcovStep l (cf, cc, s) = (drop 3 l, Some \<lparr>filePath = drop 3 l, coverage = 0, lines = []\<rparr>, s)"
  by simp

lemma lcovStep_DA_line:
  "\<not> startsWith l (str ''SF:'') \<Longrightarrow> startsWith l (str ''DA:'') \<Longrightarrow>
   lcovStep l (cf, Some c, s) =
     (cf, Some (case matchDA l of None \<Rightarrow> c
          | Some (a, b) \<Rightarrow> c\<lparr>lines := lines c @ [\<lparr>line = parseInt a, covered = (parseInt b > 0)\<rparr>]\<rparr>), s)"
  by (simp split: option.splits)

lemma lcovStep_end_line:
  "lcovStep (str ''end_of_record'') (cf, Some c, s) =
     (cf, None,
      Map_set cf (if lines c = [] then c
                  else c\<lparr>coverage := real (length (filter covered (lines c))) / real (length (lines c)) * 100\<rparr>) s)"
  by (simp add: end_of_record_not_marker)

lemma lcovStep_other_line:
  "\<not> startsWith l (str ''SF:'') \<Longrightarrow> cc = None \<or> (\<not> startsWith l (str ''DA:'') \<and> l \<noteq> str ''end_of_record'') \<Longrightarrow>
   lcovStep l (cf, cc, s) = (cf, cc, s)"
  by auto


lemma lcovStep_cases:
  obtains (SF) "startsWith l (str ''SF:'')"
      "\<And>s. lcovStep l (cf, cc, s) = (drop 3 l, Some \<lparr>filePath = drop 3 l, coverage = 0, lines = []\<rparr>, s)"
    | (DA) c c' where "cc = Some c" "l \<noteq> str ''end_of_record''" "\<not> startsWith l (str ''SF:'')"
      "\<And>s. lcovStep l (cf, cc, s) = (cf, Some c', s)" "filePath c' = filePath c" "coverage c' = coverage c"
    | (End) c where "cc = Some c" "l = str ''end_of_record''"
      "\<And>s. lcovStep l (cf, cc, s) =
         (cf, None,
          Map_set cf (if lines c = [] then c
                      else c\<lparr>coverage := real (length (filter covered (lines c))) / real (length (lines c)) * 100\<rparr>) s)"
    | (Other) "l \<noteq> str ''end_of_record'' \<or> cc = None" "\<not> startsWith l (str ''SF:'')"
      "\<And>s. lcovStep l (cf, cc, s) = (cf, cc, s)"
proof (cases "startsWith l (str ''SF:'')")
  case True
  then show ?thesis using SF lcovStep_SF_line by blast
next
  case nsf: False
  show ?thesis
  proof (cases cc)
    case None
    then show ?thesis using Other nsf lcovStep_other_line by blast
  next
    case (Some c)
    show ?thesis
    proof (cases "startsWith l (str ''DA:'')")
      case True
      then have ne: "l \<noteq> str ''end_of_record''" using end_of_record_not_marker by auto
      let ?c' = "case matchDA l of None \<Rightarrow> c
          | Some (a, b) \<Rightarrow> c\<lparr>lines := lines c @ [\<lparr>line = parseInt a, covered = (parseInt b > 0)\<rparr>]\<rparr>"
      have "\<And>s. lcovStep l (cf, cc, s) = (cf, Some ?c', s)"
        unfolding Some using nsf True by (rule lcovStep_DA_line)
      moreover have "filePath ?c' = filePath c" "coverage ?c' = coverage c"
        by (simp_all split: option.splits)
      ultimately show ?thesis using DA Some ne nsf by blast
    next
      case nda: False
      show ?thesis
      proof (cases "l = str ''end_of_record''")
        case True
        then show ?thesis using End Some lcovStep_end_line by blast
      next
        case False
        then show ?thesis using Other nsf nda lcovStep_other_line by blast
      qed
    qed
  qed
qed

declare lcovStep.simps [simp del]

lemma lcovStep_open_ok: "open_ok st \<Longrightarrow> open_ok (lcovStep l st)"
proof -
  assume a: "open_ok st"
  obtain cf cc s where st: "st = (cf, cc, s)" by (cases st)
  show ?thesis
    by (rule lcovStep_cases [of l cf cc]) (use a in \<open>auto simp: st open_ok_def\<close>)
qed

lemma lcovStep_store:
  assumes "open_ok st"
  shows "snd (snd (lcovStep l st)) = snd (snd st)
         \<or> (\<exists>c. filePath c = fst st \<and> coverage c = line_percentage (lines c)
                \<and> snd (snd (lcovStep l st)) = Map_set (fst st) c (snd (snd st)))"
proof -
  obtain cf cc s where st: "st = (cf, cc, s)" by (cases st)
  show ?thesis
  proof (rule lcovStep_cases [of l cf cc])
    fix c
    assume c: "cc = Some c" and "l = str ''end_of_record''"
      and step: "\<And>s. lcovStep l (cf, cc, s) =
         (cf, None,
          Map_set cf (if lines c = [] then c
                      else c\<lparr>coverage := real (length (filter covered (lines c))) / real (length (lines c)) * 100\<rparr>) s)"
    let ?c = "if lines c = [] then c
                      else c\<lparr>coverage := real (length (filter covered (lines c))) / real (length (lines c)) * 100\<rparr>"
    from assms c have "filePath c = cf" "coverage c = 0" by (simp_all add: st open_ok_def)
    then have "filePath ?c = cf" "coverage ?c = line_percentage (lines ?c)"
      by (simp_all add: line_percentage_def)
    then show ?thesis using step st by auto
  qed (simp_all add: st)
qed

lemma lcovStep_not_end: "l \<noteq> str ''end_of_record'' \<Longrightarrow> snd (snd (lcovStep l st)) = snd (snd st)"
proof -
  assume a: "l \<noteq> str ''end_of_record''"
  obtain cf cc s where st: "st = (cf, cc, s)" by (cases st)
  show ?thesis
    by (rule lcovStep_cases [of l cf cc]) (use a in \<open>simp_all add: st\<close>)
qed

lemma lcovStep_SF:
  "lcovStep (str ''SF:'' @ f) st = (f, Some \<lparr>filePath = f, coverage = 0, lines = []\<rparr>, snd (snd st))"
  by (cases st) (simp add: lcovStep.simps startsWith_def str_def)

lemma lcovLoop_Nil: "lcovLoop [] st = st"
  by (simp add: lcovLoop_def)

lemma lcovLoop_Cons: "lcovLoop (l # ls) st = lcovLoop ls (lcovStep l st)"
  by (simp add: lcovLoop_def)

lemma lcovLoop_append: "lcovLoop (ls @ ls') st = lcovLoop ls' (lcovLoop ls st)"
  by (simp add: lcovLoop_def)

lemma lcovLoop_open_ok: "open_ok st \<Longrightarrow> open_ok (lcovLoop ls st)"
  by (induction ls arbitrary: st) (simp_all add: lcovLoop_Nil lcovLoop_Cons lcovStep_open_ok)

lemma open_ok_init: "open_ok ([], None, m)"
  by (simp add: open_ok_def)





lemma lcovLoop_percentage:
  "open_ok st \<Longrightarrow> map_of (snd (snd (lcovLoop ls st))) f = Some r \<Longrightarrow>
   map_of (snd (snd st)) f = Some r \<or> coverage r = line_percentage (lines r)"
proof (induction ls arbitrary: st)
  case Nil
  then show ?case by (simp add: lcovLoop_Nil)
next
  case (Cons l ls)
  have ok: "open_ok (lcovStep l st)" using Cons.prems(1) by (rule lcovStep_open_ok)
  from Cons.prems(2) have "map_of (snd (snd (lcovLoop ls (lcovStep l st)))) f = Some r"
    by (simp add: lcovLoop_Cons)
  with Cons.IH [OF ok]
  have "map_of (snd (snd (lcovStep l st))) f = Some r \<or> coverage r = line_percentage (lines r)"
    by blast
  then show ?case
    using lcovStep_store [OF Cons.prems(1), of l]
    by (auto simp: map_of_Map_set split: if_splits)
qed




lemma lcovLoop_no_end:
  "str ''end_of_record'' \<notin> set ls \<Longrightarrow> snd (snd (lcovLoop ls st)) = snd (snd st)"
proof (induction ls arbitrary: st)
  case Nil
  then show ?case by (simp add: lcovLoop_Nil)
next
  case (Cons l ls)
  then have "l \<noteq> str ''end_of_record''" "str ''end_of_record'' \<notin> set ls" by auto
  then show ?case using Cons.IH by (simp add: lcovLoop_Cons lcovStep_not_end)
qed

lemma lcovLoop_lost_segment:
  assumes "str ''end_of_record'' \<notin> set mid"
  shows "lcovLoop [str ''SF:'' @ f2] (lcovLoop mid (lcovLoop [str ''SF:'' @ f1] st))
       = lcovLoop [str ''SF:'' @ f2] st"
proof -
  have "snd (snd (lcovLoop mid (lcovStep (str ''SF:'' @ f1) st))) = snd (snd st)"
    using lcovLoop_no_end [OF assms] by (simp add: lcovStep_SF)
  then show ?thesis
    by (simp add: lcovLoop_Cons lcovLoop_Nil lcovStep_SF)
qed

lemma lcovLoop_untouched:
  "f \<notin> set (sf_paths ls) \<Longrightarrow> cc = None \<or> cf \<noteq> f \<Longrightarrow>
   map_of (snd (snd (lcovLoop ls (cf, cc, s)))) f = map_of s f"
proof (induction ls arbitrary: cf cc s)
  case Nil
  then show ?case by (simp add: lcovLoop_Nil)
next
  case (Cons l ls)
  from Cons.prems(1) have rest: "f \<notin> set (sf_paths ls)"
    and this_line: "startsWith l (str ''SF:'') \<Longrightarrow> drop 3 l \<noteq> f"
    by (auto simp: sf_paths_def)
  show ?case
  proof (rule lcovStep_cases [of l cf cc])
    assume "startsWith l (str ''SF:'')"
      and "\<And>s. lcovStep l (cf, cc, s) = (drop 3 l, Some \<lparr>filePath = drop 3 l, coverage = 0, lines = []\<rparr>, s)"
    then show ?thesis
      using Cons.IH [OF rest, of "Some \<lparr>filePath = drop 3 l, coverage = 0, lines = []\<rparr>" "drop 3 l" s] this_line
      by (simp add: lcovLoop_Cons)
  next
    fix c c'
    assume "cc = Some c" "\<And>s. lcovStep l (cf, cc, s) = (cf, Some c', s)"
    then show ?thesis
      using Cons.IH [OF rest, of "Some c'" cf s] Cons.prems(2) by (simp add: lcovLoop_Cons)
  next
    fix c
    assume "cc = Some c"
      and "\<And>s. lcovStep l (cf, cc, s) =
         (cf, None,
          Map_set cf (if lines c = [] then c
                      else c\<lparr>coverage := real (length (filter covered (lines c))) / real (length (lines c)) * 100\<rparr>) s)"
    then show ?thesis
      using Cons.IH [OF rest, of None cf] Cons.prems(2)
      by (simp add: lcovLoop_Cons map_of_Map_set)
  next
    assume "\<And>s. lcovStep l (cf, cc, s) = (cf, cc, s)"
    then show ?thesis
      using Cons.IH [OF rest, of cc cf s] Cons.prems(2) by (simp add: lcovLoop_Cons)
  qed
qed


lemmas lcov_eval =
  parseLcovReport_def lcovLoop_def lcovStep.simps matchDA_def startsWith_def parseInt_def isDigit_def
  line_percentage_def Let_def str_def

text \<open>
  C4: every record that a run of \<open>parseLcovReport\<close> puts into the store (a record found
  under a path after the run that was not there before) has as its percentage the number
  of its covered lines over the number of its tracked lines, times 100, and 0 when it
  tracks no line. The division is guarded by \<open>lines.length > 0\<close>, so it is never
  done by zero: a record without lines keeps the 0 that \<open>SF:\<close> gave it. The lines
  \<open>[{1,true},{2,false},{3,true}]\<close> give \<open>200 / 3\<close>.
\<close>

theorem C4_lcov_percentage:
  assumes "map_of (parseLcovReport content m) f = Some r" and "map_of m f \<noteq> Some r"
  shows "coverage r = line_percentage (lines r)"
  using lcovLoop_percentage [OF open_ok_init, of "split_nl content" m f r] assms
  by (simp add: parseLcovReport_def)

theorem C4_lcov_percentage_witness:
  "map_of (parseLcovReport
      (join_nl [str ''SF:a.cs'', str ''DA:1,4'', str ''DA:2,0'', str ''DA:3,1'', str ''end_of_record'',
                str ''SF:b.cs'', str ''end_of_record'']) []) (str ''a.cs'')
     = Some \<lparr>filePath = str ''a.cs'', coverage = 200 / 3,
          lines = [\<lparr>line = 1, covered = True\<rparr>, \<lparr>line = 2, covered = False\<rparr>, \<lparr>line = 3, covered = True\<rparr>]\<rparr>
   \<and> map_of (parseLcovReport
      (join_nl [str ''SF:a.cs'', str ''DA:1,4'', str ''DA:2,0'', str ''DA:3,1'', str ''end_of_record'',
                str ''SF:b.cs'', str ''end_of_record'']) []) (str ''b.cs'')
     = Some \<lparr>filePath = str ''b.cs'', coverage = 0, lines = []\<rparr>
   \<and> line_percentage [\<lparr>line = 1, covered = True\<rparr>, \<lparr>line = 2, covered = False\<rparr>, \<lparr>line = 3, covered = True\<rparr>]
     = 200 / 3
   \<and> line_percentage [] = 0"
proof -
  let ?content = "join_nl [str ''SF:a.cs'', str ''DA:1,4'', str ''DA:2,0'', str ''DA:3,1'', str ''end_of_record'',
                str ''SF:b.cs'', str ''end_of_record'']"
  let ?a = "\<lparr>filePath = str ''a.cs'', coverage = 200 / 3,
          lines = [\<lparr>line = 1, covered = True\<rparr>, \<lparr>line = 2, covered = False\<rparr>, \<lparr>line = 3, covered = True\<rparr>]\<rparr>"
  let ?b = "\<lparr>filePath = str ''b.cs'', coverage = 0, lines = []\<rparr>"
  have a: "map_of (parseLcovReport ?content []) (str ''a.cs'') = Some ?a"
    by (simp add: lcov_eval)
  have b: "map_of (parseLcovReport ?content []) (str ''b.cs'') = Some ?b"
    by (simp add: lcov_eval)
  have "coverage ?a = line_percentage (lines ?a)"
    by (rule C4_lcov_percentage [OF a]) simp
  moreover have "coverage ?b = line_percentage (lines ?b)"
    by (rule C4_lcov_percentage [OF b]) simp
  ultimately show ?thesis using a b by simp
qed



subsection \<open>Sequences of coverage parses\<close>















lemmas report_eval =
  parseCoberturaReport_def parseJsonReport_def orDefault_def parseFloat_def lcov_eval


lemma report_examples:
  "parseReport (JsonFile (Some [Some [(str ''b.cs'',
        Some \<lparr>linecoverage = 1 / 2, document_lines = [(str ''1'', Some 2), (str ''2'', Some 0)]\<rparr>),
        (str ''c.cs'', None), (str ''d.cs'', Some \<lparr>linecoverage = 1, document_lines = []\<rparr>)]])) []
   = [(str ''b.cs'', \<lparr>filePath = str ''b.cs'', coverage = 50,
         lines = [\<lparr>line = 1, covered = True\<rparr>, \<lparr>line = 2, covered = False\<rparr>]\<rparr>)]"
  "parseCoberturaReport (Some [[Some \<lparr>filename = str ''a.cs'', lineRate = Some (str ''0.25''),
           class_lines = [Some \<lparr>number = str ''7'', hits = None\<rparr>]\<rparr>, None]]) []
   = (Threw, [(str ''a.cs'', \<lparr>filePath = str ''a.cs'', coverage = 25,
         lines = [\<lparr>line = 7, covered = False\<rparr>]\<rparr>)])"
  by (simp_all add: report_eval)

text \<open>
  C9 (as stated, refuted): two \<open>SF:\<close> markers with no \<open>end_of_record\<close> between them do
  not keep the first path out of the store. Here \<open>SF:a.cs\<close> is followed by \<open>SF:b.cs\<close>
  before any end marker, and the parse still stores a record for \<open>a.cs\<close>, because the
  path is opened again later and closed; the line \<open>DA:1,1\<close> of the first, unclosed record
  is lost.
\<close>

theorem C9_first_path_stored_counterexample:
  "map_of (parseLcovReport
      (join_nl [str ''SF:a.cs'', str ''DA:1,1'', str ''SF:b.cs'', str ''end_of_record'',
                str ''SF:a.cs'', str ''DA:2,0'', str ''end_of_record'']) []) (str ''a.cs'')
   = Some \<lparr>filePath = str ''a.cs'', coverage = 0, lines = [\<lparr>line = 2, covered = False\<rparr>]\<rparr>"
  by (simp add: lcov_eval)

text \<open>
  C9 (amended): an \<open>SF:\<close> marker opens a fresh record and drops the record in progress.
  When two \<open>SF:\<close> markers have no \<open>end_of_record\<close> between them, the lines from the first
  marker up to the second have no effect: the parse leaves the store that it leaves
  without them. If moreover no other \<open>SF:\<close> line of the report names the first path, the
  parse stores no record for it: the store holds for that path what it held before.
\<close>

theorem C9_unclosed_record_lost:
  assumes "split_nl content = pre @ [str ''SF:'' @ f1] @ mid @ [str ''SF:'' @ f2] @ post"
    and "str ''end_of_record'' \<notin> set mid"
  shows "parseLcovReport content m = snd (snd (lcovLoop (pre @ [str ''SF:'' @ f2] @ post) ([], None, m)))
       \<and> (f1 \<notin> set (sf_paths (pre @ mid @ [str ''SF:'' @ f2] @ post)) \<longrightarrow>
            map_of (parseLcovReport content m) f1 = map_of m f1)"
proof -
  have "lcovLoop (pre @ [str ''SF:'' @ f1] @ mid @ [str ''SF:'' @ f2] @ post) ([], None, m)
      = lcovLoop (pre @ [str ''SF:'' @ f2] @ post) ([], None, m)"
    by (simp only: lcovLoop_append lcovLoop_lost_segment [OF assms(2)])
  then have eq: "parseLcovReport content m
      = snd (snd (lcovLoop (pre @ [str ''SF:'' @ f2] @ post) ([], None, m)))"
    by (simp add: parseLcovReport_def assms(1))
  have "map_of (parseLcovReport content m) f1 = map_of m f1"
    if "f1 \<notin> set (sf_paths (pre @ mid @ [str ''SF:'' @ f2] @ post))"
  proof -
    from that have "f1 \<notin> set (sf_paths (pre @ [str ''SF:'' @ f2] @ post))"
      by (auto simp: sf_paths_def)
    then show ?thesis unfolding eq by (rule lcovLoop_untouched) simp
  qed
  with eq show ?thesis by blast
qed

theorem C9_unclosed_record_lost_witness:
  "parseLcovReport (join_nl [str ''SF:a.cs'', str ''DA:1,1'', str ''SF:b.cs'', str ''DA:3,1'', str ''end_of_record'']) []
     = [(str ''b.cs'', \<lparr>filePath = str ''b.cs'', coverage = 100, lines = [\<lparr>line = 3, covered = True\<rparr>]\<rparr>)]
   \<and> map_of (parseLcovReport
        (join_nl [str ''SF:a.cs'', str ''DA:1,1'', str ''SF:b.cs'', str ''DA:3,1'', str ''end_of_record'']) [])
        (str ''a.cs'') = None"
proof -
  let ?content = "join_nl [str ''SF:a.cs'', str ''DA:1,1'', str ''SF:b.cs'', str ''DA:3,1'', str ''end_of_record'']"
  have h1: "split_nl ?content
     = [] @ [str ''SF:'' @ str ''a.cs''] @ [str ''DA:1,1''] @ [str ''SF:'' @ str ''b.cs'']
       @ [str ''DA:3,1'', str ''end_of_record'']"
    by (simp add: str_def)
  have h2: "str ''end_of_record'' \<notin> set [str ''DA:1,1'']"
    by (simp add: str_def)
  have h3: "str ''a.cs'' \<notin> set (sf_paths ([] @ [str ''DA:1,1''] @ [str ''SF:'' @ str ''b.cs'']
       @ [str ''DA:3,1'', str ''end_of_record'']))"
    by (simp add: sf_paths_def startsWith_def str_def)
  have run: "snd (snd (lcovLoop ([] @ [str ''SF:'' @ str ''b.cs''] @ [str ''DA:3,1'', str ''end_of_record''])
       ([], None, [])))
     = [(str ''b.cs'', \<lparr>filePath = str ''b.cs'', coverage = 100, lines = [\<lparr>line = 3, covered = True\<rparr>]\<rparr>)]"
    by (simp add: lcov_eval)
  from C9_unclosed_record_lost [OF h1 h2, of "[]"]
  have "parseLcovReport ?content [] = snd (snd (lcovLoop ([] @ [str ''SF:'' @ str ''b.cs'']
       @ [str ''DA:3,1'', str ''end_of_record'']) ([], None, [])))"
    and "str ''a.cs'' \<notin> set (sf_paths ([] @ [str ''DA:1,1''] @ [str ''SF:'' @ str ''b.cs'']
       @ [str ''DA:3,1'', str ''end_of_record''])) \<longrightarrow>
       map_of (parseLcovReport ?content []) (str ''a.cs'') = map_of [] (str ''a.cs'')"
    by blast+
  with h3 run show ?thesis
    by (simp only: map_of.simps simp_thms)
qed

section \<open>The turns of the test output loop\<close>

lemma parseStep_passed:
  "isPassedLine (ls ! i) \<Longrightarrow> parseStep ls i (results, currentTest) = seal Passed (results, currentTest)"
  by (simp add: Let_def)

lemma parseStep_failed:
  "\<not> isPassedLine (ls ! i) \<Longrightarrow> isFailedLine (ls ! i) \<Longrightarrow>
   parseStep ls i (results, currentTest) = seal Failed (results, currentTest)"
  by (simp add: Let_def)

lemma parseStep_skipped:
  "\<not> isPassedLine (ls ! i) \<Longrightarrow> \<not> isFailedLine (ls ! i) \<Longrightarrow> isSkippedLine (ls ! i) \<Longrightarrow>
   parseStep ls i (results, currentTest) = seal Skipped (results, currentTest)"
  by (simp add: Let_def)

lemma parseStep_name:
  assumes "\<not> isTerminalLine (ls ! i)" "matchMarker (str ''Test Name:'') (ls ! i) = Some m"
  shows "parseStep ls i (results, currentTest) =
     (results, Some \<lparr>name = Some (trim m), outcome = None, duration = None,
                     errorMessage = None, stackTrace = None\<rparr>)"
  using assms by (simp add: isTerminalLine_def Let_def)

lemma parseStep_method:
  assumes "\<not> isTerminalLine (ls ! i)" "matchMarker (str ''Test Name:'') (ls ! i) = None"
    "matchMarker (str ''Test Method:'') (ls ! i) = Some m"
  shows "parseStep ls i (results, currentTest) =
     (results, map_option (\<lambda>t. if nameUnset t then t\<lparr>name := Some (trim m)\<rparr> else t) currentTest)"
  using assms by (simp add: isTerminalLine_def Let_def split: option.splits)

lemma parseStep_duration:
  assumes "\<not> isTerminalLine (ls ! i)" "matchMarker (str ''Test Name:'') (ls ! i) = None"
    "matchMarker (str ''Test Method:'') (ls ! i) = None"
    "matchMarker (str ''Duration:'') (ls ! i) = Some m"
  shows "parseStep ls i (results, currentTest) =
     (results, map_option (\<lambda>t. case searchDuration (trim m) of None \<Rightarrow> t
          | Some durationMatch \<Rightarrow> t\<lparr>duration := Some (durationValue durationMatch)\<rparr>) currentTest)"
  using assms by (simp add: isTerminalLine_def Let_def split: option.splits)

lemma parseStep_error:
  assumes "\<not> isTerminalLine (ls ! i)" "matchMarker (str ''Test Name:'') (ls ! i) = None"
    "matchMarker (str ''Test Method:'') (ls ! i) = None"
    "matchMarker (str ''Duration:'') (ls ! i) = None"
    "matchMarker (str ''Error Message:'') (ls ! i) = Some m"
  shows "parseStep ls i (results, currentTest) =
     (results, map_option (\<lambda>t. t\<lparr>errorMessage := Some (trim m)\<rparr>) currentTest)"
  using assms by (simp add: isTerminalLine_def Let_def split: option.splits)

lemma parseStep_stack:
  assumes "\<not> isTerminalLine (ls ! i)" "matchMarker (str ''Test Name:'') (ls ! i) = None"
    "matchMarker (str ''Test Method:'') (ls ! i) = None"
    "matchMarker (str ''Duration:'') (ls ! i) = None"
    "matchMarker (str ''Error Message:'') (ls ! i) = None"
    "matchLabel (str ''Stack Trace:'') (ls ! i) \<noteq> None"
  shows "parseStep ls i (results, currentTest) =
     (results, map_option (\<lambda>t. t\<lparr>stackTrace := Some (join_nl (stackTraceLines ls i))\<rparr>) currentTest)"
  using assms by (simp add: isTerminalLine_def Let_def split: option.splits)

lemma parseStep_ignored:
  assumes "\<not> isTerminalLine (ls ! i)" "matchMarker (str ''Test Name:'') (ls ! i) = None"
    "matchMarker (str ''Test Method:'') (ls ! i) = None"
    "matchMarker (str ''Duration:'') (ls ! i) = None"
    "matchMarker (str ''Error Message:'') (ls ! i) = None"
    "matchLabel (str ''Stack Trace:'') (ls ! i) = None"
  shows "parseStep ls i (results, currentTest) = (results, currentTest)"
  using assms by (simp add: isTerminalLine_def Let_def)

declare parseStep.simps [simp del]

lemma parseStep_terminal:
  assumes "isTerminalLine (ls ! i)"
  shows "parseStep ls i (results, currentTest) =
     seal (if isPassedLine (ls ! i) then Passed else if isFailedLine (ls ! i) then Failed else Skipped)
       (results, currentTest)"
proof (cases "isPassedLine (ls ! i)")
  case True
  then show ?thesis by (simp add: parseStep_passed)
next
  case np: False
  show ?thesis
  proof (cases "isFailedLine (ls ! i)")
    case True
    with np show ?thesis by (simp add: parseStep_failed)
  next
    case False
    with np assms have "isSkippedLine (ls ! i)" by (simp add: isTerminalLine_def)
    with np False show ?thesis by (simp add: parseStep_skipped)
  qed
qed

text \<open>A turn of the loop that is not on a terminal line keeps the results and the open
  record's missing outcome.\<close>

lemma parseStep_non_terminal:
  assumes "\<not> isTerminalLine (ls ! i)"
  obtains cur' where "parseStep ls i (results, currentTest) = (results, cur')"
    "\<And>t'. cur' = Some t' \<Longrightarrow>
       outcome t' = None \<or> (\<exists>t. currentTest = Some t \<and> outcome t' = outcome t)"
proof (cases "matchMarker (str ''Test Name:'') (ls ! i)")
  case (Some m)
  show ?thesis by (rule that) (auto simp: parseStep_name [OF assms Some])
next
  case n1: None
  show ?thesis
  proof (cases "matchMarker (str ''Test Method:'') (ls ! i)")
    case (Some m)
    show ?thesis by (rule that) (auto simp: parseStep_method [OF assms n1 Some] split: if_splits)
  next
    case n2: None
    show ?thesis
    proof (cases "matchMarker (str ''Duration:'') (ls ! i)")
      case (Some m)
      show ?thesis
        by (rule that) (auto simp: parseStep_duration [OF assms n1 n2 Some] split: option.splits)
    next
      case n3: None
      show ?thesis
      proof (cases "matchMarker (str ''Error Message:'') (ls ! i)")
        case (Some m)
        show ?thesis by (rule that) (auto simp: parseStep_error [OF assms n1 n2 n3 Some])
      next
        case n4: None
        show ?thesis
        proof (cases "matchLabel (str ''Stack Trace:'') (ls ! i)")
          case (Some m)
          then have "matchLabel (str ''Stack Trace:'') (ls ! i) \<noteq> None" by simp
          from parseStep_stack [OF assms n1 n2 n3 n4 this]
          show ?thesis by (intro that) auto
        next
          case None
          show ?thesis by (rule that) (auto simp: parseStep_ignored [OF assms n1 n2 n3 n4 None])
        qed
      qed
    qed
  qed
qed


lemma seal_sealed_ok: "sealed_ok st \<Longrightarrow> sealed_ok (seal oc st)"
  by (cases "(oc, st)" rule: seal.cases) (simp_all add: sealed_ok_def)

lemma seal_length: "length (fst (seal oc st)) \<le> Suc (length (fst st))"
  by (cases "(oc, st)" rule: seal.cases) simp_all

lemma parseStep_sealed_ok:
  assumes "sealed_ok st"
  shows "sealed_ok (parseStep ls i st)"
proof -
  obtain results cur where st: "st = (results, cur)" by (cases st)
  show ?thesis
  proof (cases "isTerminalLine (ls ! i)")
    case True
    then show ?thesis using assms by (simp add: st parseStep_terminal seal_sealed_ok)
  next
    case False
    then show ?thesis
      by (rule parseStep_non_terminal [of ls i results cur])
         (use assms in \<open>auto simp: st sealed_ok_def split: option.splits\<close>)
  qed
qed

lemma parseStep_count:
  "length (fst (parseStep ls i st))
     \<le> length (fst st) + length (filter isTerminalLine [ls ! i])"
proof -
  obtain results cur where st: "st = (results, cur)" by (cases st)
  show ?thesis
  proof (cases "isTerminalLine (ls ! i)")
    case True
    then show ?thesis using seal_length [of _ "(results, cur)"] by (simp add: st parseStep_terminal)
  next
    case False
    then show ?thesis
      by (rule parseStep_non_terminal [of ls i results cur]) (simp add: st)
  qed
qed

lemma parseLoop_prefix_invariant:
  "n \<le> length ls \<Longrightarrow>
   sealed_ok (fold (parseStep ls) [0 ..< n] ([], None))
   \<and> length (fst (fold (parseStep ls) [0 ..< n] ([], None)))
       \<le> length (filter isTerminalLine (take n ls))"
proof (induction n)
  case 0
  then show ?case by (simp add: sealed_ok_def)
next
  case (Suc n)
  let ?st = "fold (parseStep ls) [0 ..< n] ([], None)"
  from Suc have ih: "sealed_ok ?st" "length (fst ?st) \<le> length (filter isTerminalLine (take n ls))"
    and n: "n < length ls" by simp_all
  have step: "fold (parseStep ls) [0 ..< Suc n] ([], None) = parseStep ls n ?st" by simp
  have "take (Suc n) ls = take n ls @ [ls ! n]" using n by (rule take_Suc_conv_app_nth)
  then have "length (filter isTerminalLine (take (Suc n) ls))
      = length (filter isTerminalLine (take n ls)) + length (filter isTerminalLine [ls ! n])"
    by simp
  with ih parseStep_count [of ls n ?st] parseStep_sealed_ok [of ?st ls n] show ?case
    unfolding step by linarith
qed

lemma parseLoop_invariant:
  "sealed_ok (parseLoop ls) \<and> length (fst (parseLoop ls)) \<le> length (filter isTerminalLine ls)"
  using parseLoop_prefix_invariant [of "length ls" ls] by (simp add: parseLoop_def)

text \<open>
  C7: \<open>parseTestResults\<close> returns the list \<open>results\<close> of the final state of the loop and
  nothing of \<open>currentTest\<close>: a record that is still open when the input ends is not in
  the returned list, and the list is no longer than the number of terminal lines of the
  input. So an input without a terminal line, such as a single name marker, gives the
  empty list.
\<close>

theorem C7_open_record_dropped:
  assumes "parseLoop (split_nl output) = (results, currentTest)"
  shows "parseTestResults output = results
       \<and> (\<forall>t. currentTest = Some t \<longrightarrow> t \<notin> set results)
       \<and> length results \<le> length (filter isTerminalLine (split_nl output))"
proof -
  from parseLoop_invariant [of "split_nl output"] assms
  have ok: "sealed_ok (results, currentTest)"
    and len: "length results \<le> length (filter isTerminalLine (split_nl output))" by simp_all
  have "t \<notin> set results" if "currentTest = Some t" for t
    using ok that by (auto simp: sealed_ok_def list_all_iff)
  with len assms show ?thesis by (simp add: parseTestResults_def)
qed

lemma includes_js_iff: "includes_js s sub \<longleftrightarrow> (\<exists>pre post. s = pre @ sub @ post)"
proof (induction s)
  case Nil
  then show ?case by auto
next
  case (Cons c cs)
  show ?case
  proof
    assume "includes_js (c # cs) sub"
    then consider "prefix sub (c # cs)" | "includes_js cs sub" by auto
    then show "\<exists>pre post. c # cs = pre @ sub @ post"
    proof cases
      case 1
      then obtain post where "c # cs = [] @ sub @ post" by (auto simp: prefix_def)
      then show ?thesis by blast
    next
      case 2
      with Cons.IH obtain pre post where "cs = pre @ sub @ post" by blast
      then have "c # cs = (c # pre) @ sub @ post" by simp
      then show ?thesis by blast
    qed
  next
    assume "\<exists>pre post. c # cs = pre @ sub @ post"
    then obtain pre post where eq: "c # cs = pre @ sub @ post" by blast
    show "includes_js (c # cs) sub"
    proof (cases pre)
      case Nil
      with eq have "prefix sub (c # cs)" by (simp add: prefix_def)
      then show ?thesis by simp
    next
      case (Cons p pre')
      with eq have "cs = pre' @ sub @ post" by simp
      with Cons.IH have "includes_js cs sub" by blast
      then show ?thesis by simp
    qed
  qed
qed

lemma includes_js_suffix:
  assumes "suffix m l" "includes_js m sub"
  shows "includes_js l sub"
proof -
  from assms(1) obtain p where "l = p @ m" by (auto simp: suffix_def)
  moreover from assms(2) obtain pre post where "m = pre @ sub @ post"
    using includes_js_iff by blast
  ultimately have "l = (p @ pre) @ sub @ post" by simp
  then show ?thesis using includes_js_iff by blast
qed

lemma captureRest_suffix: "captureRest rest = Some m \<Longrightarrow> suffix m rest"
proof -
  assume a: "captureRest rest = Some m"
  show ?thesis
  proof (cases "dropWhile isWhiteSpace rest = []")
    case False
    with a have "m = dropWhile isWhiteSpace rest"
      by (simp add: captureRest_def Let_def split: if_splits)
    then show ?thesis by (simp add: suffix_dropWhile)
  next
    case True
    with a have "rest \<noteq> []" "m = [last rest]"
      by (simp_all add: captureRest_def Let_def split: if_splits)
    then have "rest = butlast rest @ m" by simp
    then show ?thesis unfolding suffix_def by blast
  qed
qed

lemma matchLabel_suffix: "matchLabel label l = Some rest \<Longrightarrow> suffix rest l"
proof -
  assume "matchLabel label l = Some rest"
  then have "rest = drop (length label) (dropWhile isWhiteSpace l)"
    by (simp add: matchLabel_def Let_def split: if_splits)
  then have "suffix rest (dropWhile isWhiteSpace l)" by (simp add: suffix_drop)
  then show ?thesis using suffix_dropWhile suffix_order.trans by blast
qed

lemma matchMarker_suffix: "matchMarker label l = Some m \<Longrightarrow> suffix m l"
  using captureRest_suffix matchLabel_suffix suffix_order.trans
  by (fastforce simp: matchMarker_def split: option.splits)

text \<open>
  A name marker line whose name text contains one of the terminal texts is a terminal
  line.
\<close>

lemma name_text_terminal:
  assumes "matchMarker label l = Some m"
    and "includes_js m (str ''Passed!'') \<or> includes_js m (str ''Failed!'')
         \<or> includes_js m (str ''Skipped'')"
  shows "isTerminalLine l"
  using assms includes_js_suffix [OF matchMarker_suffix [OF assms(1)]]
  by (auto simp: isTerminalLine_def isPassedLine_def isFailedLine_def isSkippedLine_def)

text \<open>
  C10: on a line that passes one of the three terminal tests, whatever else it matches,
  the turn of the loop pushes the open record with the outcome of the first test that
  succeeds and empties the slot, or changes nothing when no record is open. The line
  starts no record and sets no name. By \<open>name_text_terminal\<close> this covers every
  marker line whose text contains \<open>Passed!\<close>, \<open>Failed!\<close> or \<open>Skipped\<close>, such as the
  line \<open>Test Name: Skipped_When_Offline\<close>.
\<close>

theorem C10_terminal_before_name:
  assumes "isTerminalLine (ls ! i)"
  shows "parseStep ls i (results, currentTest) =
     (case currentTest of
        None \<Rightarrow> (results, None)
      | Some t \<Rightarrow>
          (results @ [t\<lparr>outcome := Some (if isPassedLine (ls ! i) then Passed
                                          else if isFailedLine (ls ! i) then Failed else Skipped)\<rparr>],
           None))"
  by (simp add: parseStep_terminal [OF assms] split: option.splits)


lemmas test_eval =
  parseTestResults_def parseLoop_def parseStep.simps isTerminalLine_def isPassedLine_def
  isFailedLine_def isSkippedLine_def matchGlyph_def matchMarker_def matchLabel_def captureRest_def
  asciiUpper_def isWhiteSpace_def isLineTerminator_def isDigit_def trim_def nameUnset_def
  durationValue_def matchDurationAt_def parseFloat_def parseInt_def startsWith_def
  stackTraceLines_def Let_def str_def

theorem C7_open_record_dropped_witness:
  "parseTestResults (str ''Test Name: A'') = []
   \<and> parseTestResults
        (join_nl [str ''Test Name: A'', str ''Passed!'', str ''Test Name: B'', str ''Duration: 1.5s''])
       = [\<lparr>name = Some (str ''A''), outcome = Some Passed, duration = None,
            errorMessage = None, stackTrace = None\<rparr>]
   \<and> \<lparr>name = Some (str ''B''), outcome = None, duration = Some 1500,
        errorMessage = None, stackTrace = None\<rparr>
       \<notin> set (parseTestResults
           (join_nl [str ''Test Name: A'', str ''Passed!'', str ''Test Name: B'', str ''Duration: 1.5s'']))"
proof -
  have h1: "parseLoop (split_nl (str ''Test Name: A'')) =
     ([], Some \<lparr>name = Some (str ''A''), outcome = None, duration = None,
                    errorMessage = None, stackTrace = None\<rparr>)"
    by (simp add: test_eval)
  have h2: "parseLoop (split_nl
       (join_nl [str ''Test Name: A'', str ''Passed!'', str ''Test Name: B'', str ''Duration: 1.5s'']))
    = ([\<lparr>name = Some (str ''A''), outcome = Some Passed, duration = None,
          errorMessage = None, stackTrace = None\<rparr>],
       Some \<lparr>name = Some (str ''B''), outcome = None, duration = Some 1500,
          errorMessage = None, stackTrace = None\<rparr>)"
    by (simp add: test_eval)
  from C7_open_record_dropped [OF h1] C7_open_record_dropped [OF h2] show ?thesis
    by simp
qed

theorem C10_terminal_before_name_witness:
  "matchMarker (str ''Test Name:'') (str ''Test Name: Skipped_When_Offline'')
     = Some (str ''Skipped_When_Offline'')
   \<and> parseStep [str ''Test Name: A'', str ''Test Name: Skipped_When_Offline''] 1
       ([], Some \<lparr>name = Some (str ''A''), outcome = None, duration = None,
                   errorMessage = None, stackTrace = None\<rparr>)
     = ([\<lparr>name = Some (str ''A''), outcome = Some Skipped, duration = None,
           errorMessage = None, stackTrace = None\<rparr>], None)
   \<and> parseStep [str ''Test Name: Skipped_When_Offline''] 0 ([], None) = ([], None)"
proof -
  have m: "matchMarker (str ''Test Name:'') (str ''Test Name: Skipped_When_Offline'')
     = Some (str ''Skipped_When_Offline'')"
    by (simp add: test_eval)
  have t1: "isTerminalLine ([str ''Test Name: A'', str ''Test Name: Skipped_When_Offline''] ! 1)"
    by (simp add: isTerminalLine_def isSkippedLine_def str_def)
  have t0: "isTerminalLine ([str ''Test Name: Skipped_When_Offline''] ! 0)"
    by (simp add: isTerminalLine_def isSkippedLine_def str_def)
  have c: "\<not> isPassedLine (str ''Test Name: Skipped_When_Offline'')"
      "\<not> isFailedLine (str ''Test Name: Skipped_When_Offline'')"
    by (simp_all add: test_eval)
  from C10_terminal_before_name [OF t1, of "[]"
      "Some \<lparr>name = Some (str ''A''), outcome = None, duration = None,
                   errorMessage = None, stackTrace = None\<rparr>"]
    C10_terminal_before_name [OF t0, of "[]" None] m c
  show ?thesis by simp
qed

lemma matchLabel_chars:
  assumes "matchLabel a l = Some x" "i < length a"
  shows "asciiUpper (a ! i) = asciiUpper (dropWhile isWhiteSpace l ! i)"
proof -
  let ?r = "dropWhile isWhiteSpace l"
  from assms(1) have len: "length a \<le> length ?r"
    and eq: "map asciiUpper (take (length a) ?r) = map asciiUpper a"
    by (simp_all add: matchLabel_def Let_def split: if_splits)
  from eq have "map asciiUpper (take (length a) ?r) ! i = map asciiUpper a ! i" by simp
  then show ?thesis using assms(2) len by simp
qed

lemma matchMarker_label: "matchMarker a l = Some m \<Longrightarrow> \<exists>x. matchLabel a l = Some x"
  by (simp add: matchMarker_def split: option.splits)

lemma method_line_not_name:
  assumes "matchMarker (str ''Test Method:'') l = Some m"
  shows "matchMarker (str ''Test Name:'') l = None"
proof (rule ccontr)
  assume "matchMarker (str ''Test Name:'') l \<noteq> None"
  then obtain x where "matchLabel (str ''Test Name:'') l = Some x"
    using matchMarker_label by blast
  then have a: "asciiUpper (str ''Test Name:'' ! 5) = asciiUpper (dropWhile isWhiteSpace l ! 5)"
    by (rule matchLabel_chars) (simp add: str_def)
  from assms obtain y where "matchLabel (str ''Test Method:'') l = Some y"
    using matchMarker_label by blast
  then have "asciiUpper (str ''Test Method:'' ! 5) = asciiUpper (dropWhile isWhiteSpace l ! 5)"
    by (rule matchLabel_chars) (simp add: str_def)
  with a show False by (simp add: str_def asciiUpper_def)
qed

lemma duration_line_not_name:
  assumes "matchMarker (str ''Duration:'') l = Some m"
  shows "matchMarker (str ''Test Name:'') l = None \<and> matchMarker (str ''Test Method:'') l = None"
proof -
  from assms obtain y where "matchLabel (str ''Duration:'') l = Some y"
    using matchMarker_label by blast
  then have d: "asciiUpper (str ''Duration:'' ! 0) = asciiUpper (dropWhile isWhiteSpace l ! 0)"
    by (rule matchLabel_chars) (simp add: str_def)
  have "False" if "matchLabel (str ''Test Name:'') l = Some x" for x
  proof -
    have "asciiUpper (str ''Test Name:'' ! 0) = asciiUpper (dropWhile isWhiteSpace l ! 0)"
      using that by (rule matchLabel_chars) (simp add: str_def)
    with d show False by (simp add: str_def asciiUpper_def)
  qed
  moreover have "False" if "matchLabel (str ''Test Method:'') l = Some x" for x
  proof -
    have "asciiUpper (str ''Test Method:'' ! 0) = asciiUpper (dropWhile isWhiteSpace l ! 0)"
      using that by (rule matchLabel_chars) (simp add: str_def)
    with d show False by (simp add: str_def asciiUpper_def)
  qed
  ultimately show ?thesis
    by (auto simp: matchMarker_def split: option.splits)
qed

text \<open>
  C3 (as stated, refuted): a name that is set is overwritten by a later \<open>Test Name:\<close>
  line. After \<open>Test Name: A\<close> the line \<open>Test Name: B\<close> replaces the open record, and the
  record that \<open>Passed!\<close> then pushes is named \<open>B\<close>.
\<close>

theorem C3_name_overwritten_counterexample:
  "map name (parseTestResults (join_nl [str ''Test Name: A'', str ''Test Name: B'', str ''Passed!'']))
     = [Some (str ''B'')]
   \<and> map name (parseTestResults (join_nl [str ''Test Name: A'', str ''Test Name: B'', str ''Passed!'']))
     \<noteq> [Some (str ''A'')]"
  by (simp add: test_eval)

text \<open>
  C3 (amended): on a line that is not a terminal line, a \<open>Test Name:\<close> marker always puts
  a fresh record into the slot, holding the trimmed name and nothing else; whatever
  record was open is dropped. A \<open>Test Method:\<close> marker changes only an open record whose
  name is unset or empty, and then sets its name; it never overwrites a name that is set
  and never opens a record.
\<close>

theorem C3_name_markers:
  assumes "\<not> isTerminalLine (ls ! i)"
  shows "(matchMarker (str ''Test Name:'') (ls ! i) = Some m \<longrightarrow>
            parseStep ls i (results, currentTest) =
              (results, Some \<lparr>name = Some (trim m), outcome = None, duration = None,
                              errorMessage = None, stackTrace = None\<rparr>))
       \<and> (matchMarker (str ''Test Method:'') (ls ! i) = Some m \<longrightarrow>
            parseStep ls i (results, currentTest) =
              (results,
               case currentTest of
                 None \<Rightarrow> None
               | Some t \<Rightarrow> Some (if nameUnset t then t\<lparr>name := Some (trim m)\<rparr> else t)))"
proof (intro conjI impI)
  assume "matchMarker (str ''Test Name:'') (ls ! i) = Some m"
  then show "parseStep ls i (results, currentTest) =
              (results, Some \<lparr>name = Some (trim m), outcome = None, duration = None,
                              errorMessage = None, stackTrace = None\<rparr>)"
    by (rule parseStep_name [OF assms])
next
  assume m: "matchMarker (str ''Test Method:'') (ls ! i) = Some m"
  show "parseStep ls i (results, currentTest) =
              (results,
               case currentTest of
                 None \<Rightarrow> None
               | Some t \<Rightarrow> Some (if nameUnset t then t\<lparr>name := Some (trim m)\<rparr> else t))"
    by (simp add: parseStep_method [OF assms method_line_not_name [OF m] m] split: option.splits)
qed

theorem C3_name_markers_witness:
  "parseStep [str ''Test Name: A'', str ''  test name:   B  ''] 1
       ([], Some \<lparr>name = Some (str ''A''), outcome = None, duration = Some 3,
                   errorMessage = None, stackTrace = None\<rparr>)
     = ([], Some \<lparr>name = Some (str ''B''), outcome = None, duration = None,
                   errorMessage = None, stackTrace = None\<rparr>)
   \<and> parseStep [str ''Test Name: A'', str ''Test Method: M''] 1
       ([], Some \<lparr>name = Some (str ''A''), outcome = None, duration = None,
                   errorMessage = None, stackTrace = None\<rparr>)
     = ([], Some \<lparr>name = Some (str ''A''), outcome = None, duration = None,
                   errorMessage = None, stackTrace = None\<rparr>)
   \<and> parseStep [str ''Test Name: A'', str ''Test Method: M''] 1
       ([], Some \<lparr>name = Some [], outcome = None, duration = None,
                   errorMessage = None, stackTrace = None\<rparr>)
     = ([], Some \<lparr>name = Some (str ''M''), outcome = None, duration = None,
                   errorMessage = None, stackTrace = None\<rparr>)"
proof -
  have n1: "\<not> isTerminalLine ([str ''Test Name: A'', str ''  test name:   B  ''] ! 1)"
    by (simp add: test_eval)
  have m1: "matchMarker (str ''Test Name:'') ([str ''Test Name: A'', str ''  test name:   B  ''] ! 1)
      = Some (str ''B  '')"
    by (simp add: test_eval)
  have n2: "\<not> isTerminalLine ([str ''Test Name: A'', str ''Test Method: M''] ! 1)"
    by (simp add: test_eval)
  have m2: "matchMarker (str ''Test Method:'') ([str ''Test Name: A'', str ''Test Method: M''] ! 1)
      = Some (str ''M'')"
    by (simp add: test_eval)
  have t: "trim (str ''B  '') = str ''B''" "trim (str ''M'') = str ''M''"
    by (simp_all add: test_eval)
  from C3_name_markers [OF n1, of "str ''B  ''" "[]"
      "Some \<lparr>name = Some (str ''A''), outcome = None, duration = Some 3,
                   errorMessage = None, stackTrace = None\<rparr>"]
    C3_name_markers [OF n2, of "str ''M''" "[]"
      "Some \<lparr>name = Some (str ''A''), outcome = None, duration = None,
                   errorMessage = None, stackTrace = None\<rparr>"]
    C3_name_markers [OF n2, of "str ''M''" "[]"
      "Some \<lparr>name = Some [], outcome = None, duration = None,
                   errorMessage = None, stackTrace = None\<rparr>"]
    m1 m2 t
  show ?thesis by (simp add: nameUnset_def str_def)
qed

section \<open>Duration lines\<close>

lemma startsWith_append: "startsWith s p \<Longrightarrow> \<exists>post. s = p @ post"
  by (auto simp: startsWith_def prefix_def)

lemma takeWhile_all: "list_all P (takeWhile P xs)"
  by (induction xs) simp_all

lemma matchDurationAt_sound:
  assumes "matchDurationAt s = Some (num, unit)"
  shows "\<exists>ws post. s = num @ ws @ unit @ post \<and> number_text num \<and> list_all isWhiteSpace ws
           \<and> (unit = str ''ms'' \<or> unit = str ''s'')"
proof -
  let ?ip = "takeWhile isDigit s" and ?r1 = "dropWhile isDigit s"
  let ?fp = "case ?r1 of [] \<Rightarrow> [] | c # r \<Rightarrow> if c = 46 then takeWhile isDigit r else []"
  let ?num = "if ?fp = [] then ?ip else ?ip @ 46 # ?fp"
  let ?r2 = "if ?fp = [] then ?r1 else drop (Suc (length ?fp)) ?r1"
  let ?r3 = "dropWhile isWhiteSpace ?r2"
  from assms have ip: "?ip \<noteq> []"
    by (auto simp: matchDurationAt_def Let_def split: if_splits)
  from assms ip have num: "num = ?num"
    and unit: "(unit = str ''ms'' \<or> unit = str ''s'') \<and> startsWith ?r3 unit"
    by (auto simp: matchDurationAt_def Let_def split: if_splits)
  from unit obtain post where r3: "?r3 = unit @ post" using startsWith_append by blast
  have r2: "?r2 = takeWhile isWhiteSpace ?r2 @ unit @ post"
    using takeWhile_dropWhile_id [of isWhiteSpace ?r2] r3 by simp
  have s: "s = ?num @ ?r2"
  proof (cases "?fp = []")
    case True
    then show ?thesis by simp
  next
    case False
    then obtain r where r1: "?r1 = 46 # r" and fp: "?fp = takeWhile isDigit r"
      by (auto split: list.splits if_splits)
    have d: "drop (length (takeWhile isDigit r)) r = dropWhile isDigit r"
      by (simp add: dropWhile_eq_drop)
    have "?num @ ?r2 = ?ip @ 46 # (takeWhile isDigit r @ dropWhile isDigit r)"
      using False r1 fp d by simp
    also have "\<dots> = ?ip @ ?r1" by (simp add: r1)
    also have "\<dots> = s" by simp
    finally show ?thesis by simp
  qed
  have dip: "digits ?ip" using ip by (simp add: digits_def takeWhile_all)
  have nt: "number_text ?num"
  proof (cases "?fp = []")
    case True
    then show ?thesis using dip by (simp add: number_text_def)
  next
    case False
    then have "digits ?fp" by (auto simp: digits_def takeWhile_all split: list.splits if_splits)
    with dip False show ?thesis by (auto simp: number_text_def)
  qed
  have "s = num @ takeWhile isWhiteSpace ?r2 @ unit @ post"
    using s r2 num by simp
  with nt num unit show ?thesis using takeWhile_all [of isWhiteSpace ?r2] by blast
qed

lemma searchDuration_sound:
  "searchDuration s = Some (num, unit) \<Longrightarrow>
   \<exists>pre ws post. s = pre @ num @ ws @ unit @ post \<and> number_text num \<and> list_all isWhiteSpace ws
           \<and> (unit = str ''ms'' \<or> unit = str ''s'')"
proof (induction s)
  case Nil
  then show ?case by simp
next
  case (Cons c cs)
  show ?case
  proof (cases "matchDurationAt (c # cs)")
    case None
    with Cons.prems have "searchDuration cs = Some (num, unit)" by simp
    from Cons.IH [OF this] obtain pre ws post where
      "cs = pre @ num @ ws @ unit @ post" "number_text num" "list_all isWhiteSpace ws"
      "unit = str ''ms'' \<or> unit = str ''s''" by blast
    then have "c # cs = (c # pre) @ num @ ws @ unit @ post" by simp
    then show ?thesis
      using \<open>number_text num\<close> \<open>list_all isWhiteSpace ws\<close> \<open>unit = str ''ms'' \<or> unit = str ''s''\<close>
      by blast
  next
    case (Some m)
    with Cons.prems have "matchDurationAt (c # cs) = Some (num, unit)" by simp
    from matchDurationAt_sound [OF this] obtain ws post where
      "c # cs = [] @ num @ ws @ unit @ post" "number_text num" "list_all isWhiteSpace ws"
      "unit = str ''ms'' \<or> unit = str ''s''" by auto
    then show ?thesis by blast
  qed
qed


lemma takeWhile_run:
  "list_all P xs \<Longrightarrow> t = [] \<or> \<not> P (hd t) \<Longrightarrow>
   takeWhile P (xs @ t) = xs \<and> dropWhile P (xs @ t) = t"
proof (induction xs)
  case Nil
  then show ?case by (cases t) auto
next
  case (Cons x xs)
  then show ?case by simp
qed

lemma whitespace_not_number: "isWhiteSpace c \<Longrightarrow> \<not> isDigit c \<and> c \<noteq> 46 \<and> c \<noteq> 109 \<and> c \<noteq> 115"
  by (auto simp: isWhiteSpace_def isDigit_def)

lemma unit_tail:
  assumes "list_all isWhiteSpace ws" "u = str ''ms'' \<or> u = str ''s''"
  shows "ws @ u @ post \<noteq> []" "\<not> isDigit (hd (ws @ u @ post))" "hd (ws @ u @ post) \<noteq> 46"
    "dropWhile isWhiteSpace (ws @ u @ post) = u @ post"
proof -
  have u: "u @ post \<noteq> []" "\<not> isWhiteSpace (hd (u @ post))" "\<not> isDigit (hd (u @ post))"
    "hd (u @ post) \<noteq> 46"
    using assms(2) by (auto simp: str_def isWhiteSpace_def isDigit_def)
  then show "ws @ u @ post \<noteq> []" by simp
  show "\<not> isDigit (hd (ws @ u @ post))" "hd (ws @ u @ post) \<noteq> 46"
    using assms(1) u whitespace_not_number by (cases ws; simp)+
  show "dropWhile isWhiteSpace (ws @ u @ post) = u @ post"
    using takeWhile_run [OF assms(1), of "u @ post"] u by simp
qed

lemma unit_match:
  assumes "u = str ''ms'' \<or> u = str ''s''"
  shows "startsWith (u @ post) (str ''ms'') \<Longrightarrow> u = str ''ms''"
    "\<not> startsWith (u @ post) (str ''ms'') \<Longrightarrow> u = str ''s''"
    "\<not> startsWith (u @ post) (str ''ms'') \<Longrightarrow> startsWith (u @ post) (str ''s'')"
  using assms by (auto simp: startsWith_def str_def)

lemma matchDurationAt_complete:
  assumes "number_text n" "list_all isWhiteSpace ws" "u = str ''ms'' \<or> u = str ''s''"
  shows "matchDurationAt (n @ ws @ u @ post) = Some (n, u)"
proof -
  let ?t = "ws @ u @ post"
  note t = unit_tail [OF assms(2,3), of post]
  from t(1) obtain c r where cr: "?t = c # r" by (cases ?t) auto
  with t(3) have c: "c \<noteq> 46" by simp
  from assms(1) consider (int) "digits n"
    | (frac) ip fp where "n = ip @ 46 # fp" "digits ip" "digits fp"
    by (auto simp: number_text_def)
  then show ?thesis
  proof cases
    case int
    then have tw: "takeWhile isDigit (n @ ?t) = n" "dropWhile isDigit (n @ ?t) = ?t"
      using takeWhile_run [of isDigit n ?t] t(2) by (simp_all add: digits_def)
    have ne: "n \<noteq> []" using int by (simp add: digits_def)
    have fp0: "(case ?t of [] \<Rightarrow> [] | c # r \<Rightarrow> if c = 46 then takeWhile isDigit r else []) = []"
      using cr c by simp
    show ?thesis
      unfolding matchDurationAt_def Let_def tw fp0
      using ne t(4) unit_match [OF assms(3), of post] by auto
  next
    case frac
    have nd: "\<not> isDigit 46" by (simp add: isDigit_def)
    have a: "takeWhile isDigit (ip @ (46 # fp @ ?t)) = ip \<and> dropWhile isDigit (ip @ (46 # fp @ ?t)) = 46 # fp @ ?t"
      using takeWhile_run [of isDigit ip "46 # fp @ ?t"] frac(2) nd by (simp add: digits_def)
    have b: "takeWhile isDigit (fp @ ?t) = fp \<and> dropWhile isDigit (fp @ ?t) = ?t"
      using takeWhile_run [of isDigit fp ?t] frac(3) t(2) by (simp add: digits_def)
    have ne: "ip \<noteq> []" "fp \<noteq> []" using frac by (simp_all add: digits_def)
    have "matchDurationAt (ip @ (46 # fp @ ?t)) = Some (ip @ 46 # fp, u)"
      unfolding matchDurationAt_def Let_def
      using a b ne t(4) unit_match [OF assms(3), of post] by auto
    then show ?thesis by (simp add: frac(1))
  qed
qed

lemma number_text_nonempty: "number_text n \<Longrightarrow> n \<noteq> []"
  by (auto simp: number_text_def digits_def)

lemma searchDuration_complete:
  assumes "number_text n" "list_all isWhiteSpace ws" "u = str ''ms'' \<or> u = str ''s''"
  shows "searchDuration (pre @ n @ ws @ u @ post) \<noteq> None"
proof (induction pre)
  case Nil
  from number_text_nonempty [OF assms(1)] obtain c cs where "n @ ws @ u @ post = c # cs"
    by (cases n) auto
  then show ?case using matchDurationAt_complete [OF assms, of post] by simp
next
  case (Cons p pre)
  then show ?case by (simp split: option.splits)
qed

lemma searchDuration_iff: "searchDuration s \<noteq> None \<longleftrightarrow> contains_number_unit s"
proof
  assume "searchDuration s \<noteq> None"
  then obtain num unit where "searchDuration s = Some (num, unit)" by auto
  from searchDuration_sound [OF this] show "contains_number_unit s"
    unfolding contains_number_unit_def by blast
next
  assume "contains_number_unit s"
  then show "searchDuration s \<noteq> None"
    unfolding contains_number_unit_def using searchDuration_complete by blast
qed


text \<open>
  C8 (as stated, refuted): not every duration marker line seen while a record is open
  sets the duration. The line \<open>Duration: 12ms Passed!\<close> matches the duration marker and
  its text holds the number and unit \<open>12ms\<close>, but the test for \<open>Passed!\<close> comes first in
  the chain: the turn seals the open record and stores no duration.
\<close>

theorem C8_terminal_text_counterexample:
  "matchMarker (str ''Duration:'') (str ''Duration: 12ms Passed!'') = Some (str ''12ms Passed!'')
   \<and> searchDuration (trim (str ''12ms Passed!'')) = Some (str ''12'', str ''ms'')
   \<and> parseStep [str ''Duration: 12ms Passed!''] 0
       ([], Some \<lparr>name = Some (str ''A''), outcome = None, duration = None,
                   errorMessage = None, stackTrace = None\<rparr>)
     = ([\<lparr>name = Some (str ''A''), outcome = Some Passed, duration = None,
           errorMessage = None, stackTrace = None\<rparr>], None)"
  by (simp add: test_eval)

text \<open>
  C8 (amended): on a duration marker line that reaches the duration branch (it passes
  none of the terminal tests, which come first in the chain), with a record open, the
  parser looks in the trimmed text after the marker for the leftmost number followed,
  after optional white space, by \<open>ms\<close> or \<open>s\<close>, whatever comes after the unit. If the
  text contains such a number and unit, the unit found is \<open>ms\<close> or \<open>s\<close>, and the duration
  becomes the value of the number for \<open>ms\<close> and 1000 times the value for \<open>s\<close>. If the text
  contains none, the record is left as it was, so an absent duration stays absent.
\<close>

theorem C8_duration_line:
  assumes "\<not> isTerminalLine (ls ! i)" "matchMarker (str ''Duration:'') (ls ! i) = Some m"
  shows "(\<not> contains_number_unit (trim m) \<longrightarrow>
            parseStep ls i (results, Some t) = (results, Some t))
       \<and> (contains_number_unit (trim m) \<longrightarrow>
            (\<exists>num unit. searchDuration (trim m) = Some (num, unit) \<and> number_text num
               \<and> (unit = str ''ms'' \<or> unit = str ''s'')
               \<and> parseStep ls i (results, Some t) =
                   (results,
                    Some (t\<lparr>duration := Some (if unit = str ''s'' then parseFloat num * 1000
                                               else parseFloat num)\<rparr>))))"
proof -
  from duration_line_not_name [OF assms(2)]
  have step: "parseStep ls i (results, Some t) =
     (results, Some (case searchDuration (trim m) of None \<Rightarrow> t
          | Some durationMatch \<Rightarrow> t\<lparr>duration := Some (durationValue durationMatch)\<rparr>))"
    by (simp add: parseStep_duration [OF assms(1) _ _ assms(2)])
  show ?thesis
  proof (cases "searchDuration (trim m)")
    case None
    then have "\<not> contains_number_unit (trim m)" using searchDuration_iff by blast
    with None step show ?thesis by simp
  next
    case (Some dm)
    obtain num unit where dm: "dm = (num, unit)" by (cases dm)
    from searchDuration_sound [OF Some [unfolded dm]]
    have "number_text num" "unit = str ''ms'' \<or> unit = str ''s''" by blast+
    moreover have "contains_number_unit (trim m)" using Some searchDuration_iff by blast
    ultimately show ?thesis using Some step by (simp add: dm durationValue_def)
  qed
qed

theorem C8_duration_line_witness:
  "parseStep [str ''Duration: 1.5 s''] 0
       ([], Some \<lparr>name = Some (str ''A''), outcome = None, duration = None,
                   errorMessage = None, stackTrace = None\<rparr>)
     = ([], Some \<lparr>name = Some (str ''A''), outcome = None, duration = Some 1500,
                   errorMessage = None, stackTrace = None\<rparr>)
   \<and> parseStep [str ''Duration: 12ms''] 0
       ([], Some \<lparr>name = Some (str ''A''), outcome = None, duration = None,
                   errorMessage = None, stackTrace = None\<rparr>)
     = ([], Some \<lparr>name = Some (str ''A''), outcome = None, duration = Some 12,
                   errorMessage = None, stackTrace = None\<rparr>)
   \<and> parseStep [str ''Duration: fast''] 0
       ([], Some \<lparr>name = Some (str ''A''), outcome = None, duration = None,
                   errorMessage = None, stackTrace = None\<rparr>)
     = ([], Some \<lparr>name = Some (str ''A''), outcome = None, duration = None,
                   errorMessage = None, stackTrace = None\<rparr>)"
proof -
  let ?t = "\<lparr>name = Some (str ''A''), outcome = None, duration = None,
                   errorMessage = None, stackTrace = None\<rparr>"
  have n: "\<not> isTerminalLine ([str ''Duration: 1.5 s''] ! 0)"
      "\<not> isTerminalLine ([str ''Duration: 12ms''] ! 0)"
      "\<not> isTerminalLine ([str ''Duration: fast''] ! 0)"
    by (simp_all add: test_eval)
  have m: "matchMarker (str ''Duration:'') ([str ''Duration: 1.5 s''] ! 0) = Some (str ''1.5 s'')"
      "matchMarker (str ''Duration:'') ([str ''Duration: 12ms''] ! 0) = Some (str ''12ms'')"
      "matchMarker (str ''Duration:'') ([str ''Duration: fast''] ! 0) = Some (str ''fast'')"
    by (simp_all add: test_eval)
  have s: "searchDuration (trim (str ''1.5 s'')) = Some (str ''1.5'', str ''s'')"
      "searchDuration (trim (str ''12ms'')) = Some (str ''12'', str ''ms'')"
      "searchDuration (trim (str ''fast'')) = None"
    by (simp_all add: test_eval)
  have c: "contains_number_unit (trim (str ''1.5 s''))" "contains_number_unit (trim (str ''12ms''))"
      "\<not> contains_number_unit (trim (str ''fast''))"
    using s searchDuration_iff by (blast, blast, blast)
  have v: "parseFloat (str ''1.5'') * 1000 = 1500" "parseFloat (str ''12'') = 12"
      "str ''ms'' \<noteq> str ''s''"
    by (simp_all add: test_eval)
  from C8_duration_line [OF n(1) m(1), of "[]" ?t] C8_duration_line [OF n(2) m(2), of "[]" ?t]
    C8_duration_line [OF n(3) m(3), of "[]" ?t] c s v
  show ?thesis by simp
qed

section \<open>The stack trace capture\<close>

text \<open>
  The capture after a stack trace marker at index \<open>i\<close> reads the lines \<open>i + 1\<close> to
  \<open>i + 19\<close>: the bound \<open>j < i + 20\<close> leaves nineteen lines, not twenty.
\<close>

lemma stackTraceLines_at_most_19: "length (stackTraceLines ls i) \<le> 19"
proof -
  have "length (stackTraceLines ls i) \<le> min (length ls) (i + 20) - (i + 1)"
    unfolding stackTraceLines_def
    using length_takeWhile_le [of "\<lambda>l. trim l \<noteq> []" "map (\<lambda>j. ls ! j) [i + 1 ..< min (length ls) (i + 20)]"]
    by simp
  then show ?thesis by simp
qed

lemma following_lines:
  "map (\<lambda>j. ls ! j) [i + 1 ..< min (length ls) (i + 20)] = take 19 (drop (Suc i) ls)"
proof (rule nth_equalityI)
  show "length (map (\<lambda>j. ls ! j) [i + 1 ..< min (length ls) (i + 20)]) = length (take 19 (drop (Suc i) ls))"
    by auto
next
  fix k
  assume "k < length (map (\<lambda>j. ls ! j) [i + 1 ..< min (length ls) (i + 20)])"
  then have k: "k < min (length ls) (i + 20) - (i + 1)" by simp
  then have "map (\<lambda>j. ls ! j) [i + 1 ..< min (length ls) (i + 20)] ! k = ls ! (i + 1 + k)"
    by (rule nth_map_upt)
  moreover have "take 19 (drop (Suc i) ls) ! k = ls ! (i + 1 + k)"
    using k by simp
  ultimately show "map (\<lambda>j. ls ! j) [i + 1 ..< min (length ls) (i + 20)] ! k = take 19 (drop (Suc i) ls) ! k"
    by simp
qed

lemma stackTraceLines_next_19:
  "stackTraceLines ls i = takeWhile (\<lambda>l. trim l \<noteq> []) (take 19 (drop (Suc i) ls))"
  by (simp only: stackTraceLines_def following_lines)

text \<open>
  C2 (the code differs from the claim): the stack trace marker is followed by twenty
  lines that are not blank, \<open>a\<close> to \<open>t\<close>. The claim has all twenty collected; the loop
  collects the nineteen lines \<open>a\<close> to \<open>s\<close> and leaves \<open>t\<close> out. The record stays open
  during the capture and is pushed by the terminal line at the end.
\<close>

theorem C2_stack_trace_stops_at_19:
  "map stackTrace
     (parseTestResults
        (join_nl
           ([str ''Test Name: T'', str ''Stack Trace:'']
            @ map str [''a'', ''b'', ''c'', ''d'', ''e'', ''f'', ''g'', ''h'', ''i'', ''j'',
                       ''k'', ''l'', ''m'', ''n'', ''o'', ''p'', ''q'', ''r'', ''s'', ''t'']
            @ [str ''Failed!''])))
   = [Some (join_nl (map str [''a'', ''b'', ''c'', ''d'', ''e'', ''f'', ''g'', ''h'', ''i'', ''j'',
                              ''k'', ''l'', ''m'', ''n'', ''o'', ''p'', ''q'', ''r'', ''s'']))]"
  by (simp add: test_eval)

end
